theory Spec2Isabelle
  imports
    Main
    "HOL-Library.Char_ord"
    "HOL-Library.List_Lexorder"
    "HOL-Library.Option_ord"
    "HOL-Library.Multiset"
begin

section \<open>Values, rows and the database session\<close>

text \<open>
  The data-access layer of \<^verbatim>\<open>src/server/crud.py\<close> works on ORM objects whose
  attributes are set by name (\<^verbatim>\<open>Model(**payload)\<close>, \<^verbatim>\<open>setattr(obj, key, value)\<close>).
  A row is therefore a map from attribute names to values; a value is what a
  column or a schema field can hold: \<^verbatim>\<open>None\<close>, a bool, an int, a str or a datetime
  (a point on an integer time line).
\<close>

datatype val = VNone | VBool bool | VInt int | VStr string | VDateTime int

type_synonym row = "string \<rightharpoonup> val"

text \<open>A table keeps its rows in storage order; the session holds one table per model.\<close>

record session =
  users :: "row list"
  publications :: "row list"
  authors :: "row list"
  news :: "row list"
  members :: "row list"
  research_areas :: "row list"
  lab_info :: "row list"

text \<open>
  What a call can raise. \<open>IntegrityError\<close> is the storage engine refusing an insert
  whose primary key is missing or already present; \<open>AttributeError\<close> is Python reading
  a schema attribute that has neither a value nor a default.
\<close>

datatype db_error = IntegrityError | AttributeError

subsection \<open>Schema classes (\<^verbatim>\<open>src/server/schemas.py\<close>)\<close>

text \<open>
  A schema class lists its fields in declaration order, each with its default
  (\<open>None\<close> for a required field). An instance records the fields that were set
  explicitly; \<^verbatim>\<open>.dict(exclude_unset=True)\<close> returns exactly those, and only fields the
  class declares.
\<close>

type_synonym schema_class = "(string \<times> val option) list"

type_synonym schema_instance = "string \<rightharpoonup> val"

type_synonym pydict = "(string \<times> val) list"

definition UserCreate :: schema_class where
  "UserCreate =
     [(''email'', None), (''firstName'', None), (''lastName'', None), (''password'', None)]"

definition PublicationCreate :: schema_class where
  "PublicationCreate =
     [(''title'', None), (''journal'', Some VNone), (''conference'', Some VNone),
      (''year'', None), (''type'', None), (''abstract'', None), (''pdfUrl'', Some VNone),
      (''imageUrl'', Some VNone), (''order'', Some (VInt 0))]"

definition AuthorCreate :: schema_class where
  "AuthorCreate = [(''name'', None), (''homepage'', Some VNone), (''order'', Some (VInt 0))]"

definition NewsCreate :: schema_class where
  "NewsCreate =
     [(''title'', None), (''content'', None), (''summary'', Some VNone),
      (''imageUrl'', Some VNone)]"

definition MemberUpdate :: schema_class where
  "MemberUpdate =
     [(''name'', Some VNone), (''degree'', Some VNone), (''email'', Some VNone),
      (''imageUrl'', Some VNone), (''homepage'', Some VNone), (''joinedAt'', Some VNone),
      (''status'', Some VNone), (''bio'', Some VNone), (''researchInterests'', Some VNone)]"

definition ResearchAreaCreate :: schema_class where
  "ResearchAreaCreate =
     [(''name'', None), (''description'', Some VNone), (''parentId'', Some VNone),
      (''imageUrl'', Some VNone), (''order'', Some (VInt 0)), (''isActive'', Some (VBool True))]"

definition LabInfoCreate :: schema_class where
  "LabInfoCreate =
     [(''labName'', None), (''principalInvestigator'', None), (''piTitle'', None),
      (''piEmail'', Some VNone), (''piPhone'', Some VNone), (''piPhoto'', Some VNone),
      (''piBio'', Some VNone), (''description'', Some VNone), (''address'', None),
      (''latitude'', Some VNone), (''longitude'', Some VNone), (''building'', Some VNone),
      (''room'', Some VNone), (''university'', None), (''department'', None),
      (''website'', Some VNone), (''establishedYear'', Some VNone),
      (''researchFocus'', Some VNone), (''contactEmail'', None),
      (''contactPhone'', Some VNone), (''officeHours'', Some VNone)]"

text \<open>\<^verbatim>\<open>obj.dict(exclude_unset=True)\<close>: the explicitly set fields, in declaration order.\<close>

fun dict_exclude_unset :: "schema_class \<Rightarrow> schema_instance \<Rightarrow> pydict" where
  "dict_exclude_unset [] obj = []"
| "dict_exclude_unset ((k, d) # cls) obj =
     (case obj k of
        Some v \<Rightarrow> (k, v) # dict_exclude_unset cls obj
      | None \<Rightarrow> dict_exclude_unset cls obj)"

text \<open>\<^verbatim>\<open>obj.field\<close>: the set value, else the declared default, else \<^verbatim>\<open>AttributeError\<close>.\<close>

definition getattr :: "schema_class \<Rightarrow> schema_instance \<Rightarrow> string \<Rightarrow> db_error + val" where
  "getattr cls obj k =
     (case obj k of
        Some v \<Rightarrow> Inr v
      | None \<Rightarrow> (case map_of cls k of Some (Some d) \<Rightarrow> Inr d | _ \<Rightarrow> Inl AttributeError))"

subsection \<open>Python dictionaries\<close>

text \<open>\<^verbatim>\<open>key in d\<close>, \<^verbatim>\<open>d.pop(key, default)\<close> (the value and the remaining dict) and \<^verbatim>\<open>d[key] = value\<close>.\<close>

definition dict_contains :: "(string \<times> 'a) list \<Rightarrow> string \<Rightarrow> bool" where
  "dict_contains d k = (k \<in> set (map fst d))"

definition dict_pop :: "pydict \<Rightarrow> string \<Rightarrow> val \<Rightarrow> val \<times> pydict" where
  "dict_pop d k dflt =
     (case map_of d k of
        Some v \<Rightarrow> (v, filter (\<lambda>kv. fst kv \<noteq> k) d)
      | None \<Rightarrow> (dflt, d))"

fun dict_setitem :: "pydict \<Rightarrow> string \<Rightarrow> val \<Rightarrow> pydict" where
  "dict_setitem [] k v = [(k, v)]"
| "dict_setitem ((k', v') # d) k v =
     (if k' = k then (k, v) # d else (k', v') # dict_setitem d k v)"

subsection \<open>ORM objects and queries\<close>

text \<open>\<^verbatim>\<open>setattr(obj, key, value)\<close>, and the loop \<^verbatim>\<open>for key, value in d.items(): setattr(obj, key, value)\<close>.\<close>

definition setattr :: "row \<Rightarrow> string \<Rightarrow> val \<Rightarrow> row" where
  "setattr obj k v = obj(k \<mapsto> v)"

fun setattr_items :: "row \<Rightarrow> pydict \<Rightarrow> row" where
  "setattr_items obj [] = obj"
| "setattr_items obj ((k, v) # d) = setattr_items (setattr obj k v) d"

text \<open>
  \<^verbatim>\<open>models.M(**kwargs)\<close> followed by the insert. The columns the keyword arguments do
  not mention are filled in by the model's column defaults (the generated \<^verbatim>\<open>id\<close>,
  timestamps, declared defaults). These are declared in the \<^verbatim>\<open>models\<close> module, which is
  not among the sources, so every creating operation takes the row of defaults
  \<open>new\<close> as a parameter; explicitly passed attributes override it. Every keyword is
  taken to name a column of the model.
\<close>

definition construct :: "row \<Rightarrow> pydict \<Rightarrow> row" where
  "construct new kwargs = setattr_items new kwargs"

text \<open>Reading a column of a loaded object: a column without a value reads as \<^verbatim>\<open>None\<close>.\<close>

definition column :: "row \<Rightarrow> string \<Rightarrow> val" where
  "column obj k = (case obj k of Some v \<Rightarrow> v | None \<Rightarrow> VNone)"

text \<open>\<^verbatim>\<open>db.query(M).filter(M.id == i).first()\<close>: the first row whose id is \<open>i\<close>, if any.\<close>

definition has_id :: "string \<Rightarrow> row \<Rightarrow> bool" where
  "has_id i obj = (obj ''id'' = Some (VStr i))"

definition first_by_id :: "row list \<Rightarrow> string \<Rightarrow> row option" where
  "first_by_id t i = List.find (has_id i) t"

text \<open>
  \<^verbatim>\<open>db.add(obj); db.commit()\<close> (or \<^verbatim>\<open>db.flush()\<close>): the insert. The primary key \<^verbatim>\<open>id\<close>
  must be a string no row of the table carries yet. The primary key is the only
  constraint of the storage engine in the model; unique columns, foreign keys and
  column hooks are declared with the models.
\<close>

definition insert_row :: "row list \<Rightarrow> row \<Rightarrow> db_error + row list" where
  "insert_row t obj =
     (case obj ''id'' of
        Some (VStr i) \<Rightarrow>
          if list_ex (has_id i) t then Inl IntegrityError else Inr (t @ [obj])
      | _ \<Rightarrow> Inl IntegrityError)"

text \<open>
  Committing the attribute changes made to the object that \<^verbatim>\<open>first()\<close> returned: that
  row, the first with the id, is replaced in place.
\<close>

fun write_back :: "row list \<Rightarrow> string \<Rightarrow> row \<Rightarrow> row list" where
  "write_back [] i obj = []"
| "write_back (r # t) i obj = (if has_id i r then obj # t else r # write_back t i obj)"

text \<open>\<^verbatim>\<open>db.delete(obj); db.commit()\<close> for the object that \<^verbatim>\<open>first()\<close> returned.\<close>

fun delete_row :: "row list \<Rightarrow> string \<Rightarrow> row list" where
  "delete_row [] i = []"
| "delete_row (r # t) i = (if has_id i r then t else r # delete_row t i)"

section \<open>User CRUD\<close>

definition create_user ::
  "session \<Rightarrow> row \<Rightarrow> schema_instance \<Rightarrow> string \<Rightarrow> db_error + (row \<times> session)" where
  "create_user db new user hashed_password =
     (case getattr UserCreate user ''email'' of Inl e \<Rightarrow> Inl e | Inr email \<Rightarrow>
     (case getattr UserCreate user ''firstName'' of Inl e \<Rightarrow> Inl e | Inr firstName \<Rightarrow>
     (case getattr UserCreate user ''lastName'' of Inl e \<Rightarrow> Inl e | Inr lastName \<Rightarrow>
        (let db_user = construct new
               [(''email'', email),
                (''hashed_password'', VStr hashed_password),
                (''firstName'', firstName),
                (''lastName'', lastName),
                (''isApproved'', VBool False),
                (''isAdmin'', VBool False)]
         in (case insert_row (users db) db_user of
               Inl e \<Rightarrow> Inl e
             | Inr t \<Rightarrow> Inr (db_user, db\<lparr>users := t\<rparr>))))))"

definition approve_user :: "session \<Rightarrow> string \<Rightarrow> row option \<times> session" where
  "approve_user db user_id =
     (case first_by_id (users db) user_id of
        Some db_user \<Rightarrow>
          (let db_user' = setattr db_user ''isApproved'' (VBool True)
           in (Some db_user', db\<lparr>users := write_back (users db) user_id db_user'\<rparr>))
      | None \<Rightarrow> (None, db))"

section \<open>Publication and author CRUD\<close>

text \<open>
  The body of the loop over \<^verbatim>\<open>enumerate(authors_data)\<close>: the pending Author object of
  the entry at index \<open>idx\<close>, with \<open>new\<close> the row of column defaults of that author.
\<close>

definition author_of_entry :: "row \<Rightarrow> val \<Rightarrow> nat \<Rightarrow> schema_instance \<Rightarrow> row" where
  "author_of_entry new publication_id idx author_data =
     (let a_payload = dict_exclude_unset AuthorCreate author_data;
          (a_display_order, a_payload') = dict_pop a_payload ''order'' (VInt (int idx));
          a_payload'' = dict_setitem a_payload' ''displayOrder'' a_display_order;
          db_author = construct new (a_payload'' @ [(''publicationId'', publication_id)])
      in db_author)"

text \<open>
  The loop itself, \<open>idx\<close> counting up from its start value; \<open>new_author idx\<close> is the row
  of column defaults of the \<open>idx\<close>-th author.
\<close>

fun author_rows :: "(nat \<Rightarrow> row) \<Rightarrow> val \<Rightarrow> nat \<Rightarrow> schema_instance list \<Rightarrow> row list" where
  "author_rows new_author publication_id idx [] = []"
| "author_rows new_author publication_id idx (author_data # rest) =
     author_of_entry (new_author idx) publication_id idx author_data
       # author_rows new_author publication_id (Suc idx) rest"

text \<open>The commit of several pending objects: they are inserted one after the other.\<close>

fun insert_rows :: "row list \<Rightarrow> row list \<Rightarrow> db_error + row list" where
  "insert_rows t [] = Inr t"
| "insert_rows t (obj # objs) =
     (case insert_row t obj of Inl e \<Rightarrow> Inl e | Inr t' \<Rightarrow> insert_rows t' objs)"

definition create_publication ::
  "session \<Rightarrow> row \<Rightarrow> (nat \<Rightarrow> row) \<Rightarrow> schema_instance \<Rightarrow> string \<Rightarrow> schema_instance list
     \<Rightarrow> db_error + (row \<times> session)" where
  "create_publication db new_publication new_author publication author_id authors_data =
     (let pub_payload = dict_exclude_unset PublicationCreate publication;
          (pub_display_order, pub_payload') = dict_pop pub_payload ''order'' (VInt 0);
          pub_payload'' = dict_setitem pub_payload' ''displayOrder'' pub_display_order;
          db_publication = construct new_publication
                             (pub_payload'' @ [(''authorId'', VStr author_id)])
      in (case insert_row (publications db) db_publication of
            Inl e \<Rightarrow> Inl e
          | Inr pubs \<Rightarrow>
             (case insert_rows (authors db)
                     (author_rows new_author (column db_publication ''id'') 0 authors_data) of
                Inl e \<Rightarrow> Inl e
              | Inr auths \<Rightarrow>
                  Inr (db_publication, db\<lparr>publications := pubs, authors := auths\<rparr>))))"

definition update_publication ::
  "session \<Rightarrow> string \<Rightarrow> schema_instance \<Rightarrow> row option \<times> session" where
  "update_publication db publication_id publication =
     (case first_by_id (publications db) publication_id of
        None \<Rightarrow> (None, db)
      | Some db_publication \<Rightarrow>
          (let updates = dict_exclude_unset PublicationCreate publication;
               updates' =
                 (if dict_contains updates ''order''
                  then (let (v, rest) = dict_pop updates ''order'' VNone
                        in dict_setitem rest ''displayOrder'' v)
                  else updates);
               db_publication' = setattr_items db_publication updates'
           in (Some db_publication',
               db\<lparr>publications :=
                    write_back (publications db) publication_id db_publication'\<rparr>)))"

text \<open>
  The update dictionary of \<^verbatim>\<open>update_publication\<close> after its renaming step, under a
  name of its own for the proofs.
\<close>

definition publication_updates :: "schema_instance \<Rightarrow> pydict" where
  "publication_updates publication =
     (let updates = dict_exclude_unset PublicationCreate publication
      in if dict_contains updates ''order''
         then (let (v, rest) = dict_pop updates ''order'' VNone
               in dict_setitem rest ''displayOrder'' v)
         else updates)"

definition update_publication_order ::
  "session \<Rightarrow> string \<Rightarrow> int \<Rightarrow> row option \<times> session" where
  "update_publication_order db publication_id order =
     (case first_by_id (publications db) publication_id of
        None \<Rightarrow> (None, db)
      | Some db_publication \<Rightarrow>
          (let db_publication' = setattr db_publication ''displayOrder'' (VInt order)
           in (Some db_publication',
               db\<lparr>publications :=
                    write_back (publications db) publication_id db_publication'\<rparr>)))"

text \<open>
  Modelled from the spec: the cascade that removes a deleted publication's authors is
  declared with the ORM models, which are not among the sources. The spec (4.2) says
  that deleting a publication removes, by storage-engine cascade, its authors.
\<close>

definition cascade_authors :: "row list \<Rightarrow> string \<Rightarrow> row list" where
  "cascade_authors t publication_id =
     filter (\<lambda>a. a ''publicationId'' \<noteq> Some (VStr publication_id)) t"

definition delete_publication :: "session \<Rightarrow> string \<Rightarrow> bool \<times> session" where
  "delete_publication db publication_id =
     (case first_by_id (publications db) publication_id of
        None \<Rightarrow> (False, db)
      | Some db_publication \<Rightarrow>
          (True, db\<lparr>publications := delete_row (publications db) publication_id,
                     authors := cascade_authors (authors db) publication_id\<rparr>))"

definition create_author ::
  "session \<Rightarrow> row \<Rightarrow> schema_instance \<Rightarrow> string \<Rightarrow> db_error + (row \<times> session)" where
  "create_author db new author publication_id =
     (case getattr AuthorCreate author ''name'' of Inl e \<Rightarrow> Inl e | Inr name \<Rightarrow>
     (case getattr AuthorCreate author ''homepage'' of Inl e \<Rightarrow> Inl e | Inr homepage \<Rightarrow>
        (let db_author = construct new
               [(''name'', name),
                (''homepage'', homepage),
                (''publicationId'', VStr publication_id)]
         in (case insert_row (authors db) db_author of
               Inl e \<Rightarrow> Inl e
             | Inr t \<Rightarrow> Inr (db_author, db\<lparr>authors := t\<rparr>)))))"

section \<open>News CRUD\<close>

text \<open>
  \<^verbatim>\<open>order_by(desc(models.News.publishedAt))\<close>. The sort key of a row is its timestamp;
  a row without one (SQL \<^verbatim>\<open>NULL\<close>) sorts below every timestamp. Rows with equal keys
  come in an order the storage engine chooses; the model fixes one.
\<close>

definition publishedAt :: "row \<Rightarrow> int option" where
  "publishedAt obj = (case obj ''publishedAt'' of Some (VDateTime t) \<Rightarrow> Some t | _ \<Rightarrow> None)"

definition order_by_desc :: "(row \<Rightarrow> 'k::linorder) \<Rightarrow> row list \<Rightarrow> row list" where
  "order_by_desc key t = rev (sort_key key t)"

definition order_by_asc :: "(row \<Rightarrow> 'k::linorder) \<Rightarrow> row list \<Rightarrow> row list" where
  "order_by_asc key t = sort_key key t"

definition get_all_news :: "session \<Rightarrow> row list" where
  "get_all_news db = order_by_desc publishedAt (news db)"

text \<open>
  \<^verbatim>\<open>.limit(limit)\<close> keeps the first \<open>limit\<close> rows. The limit is a row count, hence a
  natural number: storage engines disagree on a negative one, which stays outside the
  model.
\<close>

definition get_recent_news :: "session \<Rightarrow> nat \<Rightarrow> row list" where
  "get_recent_news db limit = take limit (order_by_desc publishedAt (news db))"

definition get_news_by_id :: "session \<Rightarrow> string \<Rightarrow> row option" where
  "get_news_by_id db news_id = first_by_id (news db) news_id"

definition update_news :: "session \<Rightarrow> string \<Rightarrow> schema_instance \<Rightarrow> row option \<times> session" where
  "update_news db news_id news_in =
     (case first_by_id (news db) news_id of
        None \<Rightarrow> (None, db)
      | Some db_news \<Rightarrow>
          (let db_news' = setattr_items db_news (dict_exclude_unset NewsCreate news_in)
           in (Some db_news', db\<lparr>news := write_back (news db) news_id db_news'\<rparr>)))"

definition delete_news :: "session \<Rightarrow> string \<Rightarrow> bool \<times> session" where
  "delete_news db news_id =
     (case first_by_id (news db) news_id of
        None \<Rightarrow> (False, db)
      | Some db_news \<Rightarrow> (True, db\<lparr>news := delete_row (news db) news_id\<rparr>))"

section \<open>Member CRUD\<close>

text \<open>
  \<^verbatim>\<open>str.lower()\<close>. Strings are byte strings; the ASCII capitals are folded and every
  other byte is kept. All strings the grouping compares against are ASCII.
\<close>

definition lower_char :: "char \<Rightarrow> char" where
  "lower_char c =
     (if CHR ''A'' \<le> c \<and> c \<le> CHR ''Z'' then char_of (of_char c + (32 :: nat)) else c)"

definition lower :: "string \<Rightarrow> string" where
  "lower s = map lower_char s"

definition startswith :: "string \<Rightarrow> string \<Rightarrow> bool" where
  "startswith s p = (take (length p) s = p)"

text \<open>\<^verbatim>\<open>(m.status or "")\<close> for a text column: \<^verbatim>\<open>None\<close> and the empty string give \<^verbatim>\<open>""\<close>.\<close>

definition or_empty :: "val \<Rightarrow> string" where
  "or_empty v = (case v of VStr s \<Rightarrow> s | _ \<Rightarrow> [])"

text \<open>\<^verbatim>\<open>order_by(asc(models.Member.name))\<close>: the key of a row is its name, \<^verbatim>\<open>NULL\<close> lowest.\<close>

definition member_name :: "row \<Rightarrow> string option" where
  "member_name obj = (case obj ''name'' of Some (VStr s) \<Rightarrow> Some s | _ \<Rightarrow> None)"

definition get_members :: "session \<Rightarrow> row list" where
  "get_members db = order_by_asc member_name (members db)"

type_synonym grouped = "(string \<times> row list) list"

text \<open>\<^verbatim>\<open>grouped[key].append(m)\<close>.\<close>

fun grouped_append :: "grouped \<Rightarrow> string \<Rightarrow> row \<Rightarrow> grouped" where
  "grouped_append [] key m = []"
| "grouped_append ((k, ms) # g) key m =
     (if k = key then (k, ms @ [m]) # g else (k, ms) # grouped_append g key m)"

text \<open>The body of the loop \<^verbatim>\<open>for m in members\<close>.\<close>

definition group_member :: "grouped \<Rightarrow> row \<Rightarrow> grouped" where
  "group_member grouped m =
     (if lower (or_empty (column m ''status'')) = ''alumni''
      then grouped_append grouped ''alumni'' m
      else (let deg = lower (or_empty (column m ''degree''))
            in if dict_contains grouped deg then grouped_append grouped deg m
               else if deg \<in> {''phd'', ''ph.d'', ''doctor''} then grouped_append grouped ''phd'' m
               else if startswith deg ''master'' then grouped_append grouped ''masters'' m
               else if startswith deg ''bachelor'' then grouped_append grouped ''bachelors'' m
               else grouped_append grouped ''other'' m))"

fun group_members :: "grouped \<Rightarrow> row list \<Rightarrow> grouped" where
  "group_members grouped [] = grouped"
| "group_members grouped (m # ms) = group_members (group_member grouped m) ms"

definition get_members_by_degree_level :: "session \<Rightarrow> grouped" where
  "get_members_by_degree_level db =
     (let members = order_by_asc member_name (members db);
          grouped = [(''masters'', []), (''bachelors'', []), (''phd'', []), (''other'', []),
                     (''alumni'', [])]
      in group_members grouped members)"

definition update_member :: "session \<Rightarrow> string \<Rightarrow> schema_instance \<Rightarrow> row option \<times> session" where
  "update_member db member_id member =
     (case first_by_id (members db) member_id of
        None \<Rightarrow> (None, db)
      | Some db_member \<Rightarrow>
          (let db_member' = setattr_items db_member (dict_exclude_unset MemberUpdate member)
           in (Some db_member',
               db\<lparr>members := write_back (members db) member_id db_member'\<rparr>)))"

definition delete_member :: "session \<Rightarrow> string \<Rightarrow> bool \<times> session" where
  "delete_member db member_id =
     (case first_by_id (members db) member_id of
        None \<Rightarrow> (False, db)
      | Some db_member \<Rightarrow> (True, db\<lparr>members := delete_row (members db) member_id\<rparr>))"

section \<open>Research area CRUD\<close>

definition get_research_area_by_id :: "session \<Rightarrow> string \<Rightarrow> row option" where
  "get_research_area_by_id db area_id = first_by_id (research_areas db) area_id"

definition update_research_area ::
  "session \<Rightarrow> string \<Rightarrow> schema_instance \<Rightarrow> row option \<times> session" where
  "update_research_area db area_id area =
     (case first_by_id (research_areas db) area_id of
        None \<Rightarrow> (None, db)
      | Some db_area \<Rightarrow>
          (let db_area' = setattr_items db_area (dict_exclude_unset ResearchAreaCreate area)
           in (Some db_area',
               db\<lparr>research_areas := write_back (research_areas db) area_id db_area'\<rparr>)))"

definition delete_research_area :: "session \<Rightarrow> string \<Rightarrow> bool \<times> session" where
  "delete_research_area db area_id =
     (case first_by_id (research_areas db) area_id of
        None \<Rightarrow> (False, db)
      | Some db_area \<Rightarrow>
          (True, db\<lparr>research_areas := delete_row (research_areas db) area_id\<rparr>))"

section \<open>Lab info CRUD\<close>

definition get_lab_info :: "session \<Rightarrow> row option" where
  "get_lab_info db = first_by_id (lab_info db) ''lab_settings''"

definition create_or_update_lab_info ::
  "session \<Rightarrow> row \<Rightarrow> schema_instance \<Rightarrow> db_error + (row \<times> session)" where
  "create_or_update_lab_info db new lab_info_in =
     (case first_by_id (lab_info db) ''lab_settings'' of
        Some db_lab_info \<Rightarrow>
          (let db_lab_info' =
                 setattr_items db_lab_info (dict_exclude_unset LabInfoCreate lab_info_in)
           in Inr (db_lab_info',
                   db\<lparr>lab_info := write_back (lab_info db) ''lab_settings'' db_lab_info'\<rparr>))
      | None \<Rightarrow>
          (let db_lab_info =
                 construct new
                   ((''id'', VStr ''lab_settings'') # dict_exclude_unset LabInfoCreate lab_info_in)
           in (case insert_row (lab_info db) db_lab_info of
                 Inl e \<Rightarrow> Inl e
               | Inr t \<Rightarrow> Inr (db_lab_info, db\<lparr>lab_info := t\<rparr>))))"

text \<open>
  A run of lab-info calls from a store, for the singleton invariant: each call is a read
  or a create-or-update with its row of defaults and its input; a call that raises
  leaves the store as it was.
\<close>

datatype lab_call = GetLabInfo | CreateOrUpdateLabInfo row schema_instance

fun lab_step :: "session \<Rightarrow> lab_call \<Rightarrow> session" where
  "lab_step db GetLabInfo = db"
| "lab_step db (CreateOrUpdateLabInfo new lab_info_in) =
     (case create_or_update_lab_info db new lab_info_in of
        Inl e \<Rightarrow> db
      | Inr (obj, db') \<Rightarrow> db')"

fun lab_run :: "session \<Rightarrow> lab_call list \<Rightarrow> session" where
  "lab_run db [] = db"
| "lab_run db (c # cs) = lab_run (lab_step db c) cs"

section \<open>Invariants, the classification of the spec, and example stores\<close>

text \<open>The primary-key constraint of a table: no two rows share an id.\<close>

definition row_id :: "row \<Rightarrow> val option" where
  "row_id obj = obj ''id''"

definition wf_table :: "row list \<Rightarrow> bool" where
  "wf_table t = distinct (map row_id t)"

definition empty_session :: session where
  "empty_session =
     \<lparr>users = [], publications = [], authors = [], news = [], members = [],
      research_areas = [], lab_info = []\<rparr>"

text \<open>A store with one news row, for examples.\<close>

definition one_news_session :: session where
  "one_news_session = empty_session\<lparr>news := [[''id'' \<mapsto> VStr ''n1'', ''title'' \<mapsto> VStr ''T'']]\<rparr>"

text \<open>
  The singleton invariant of the lab-info table: at most one row, and every row is keyed
  by the sentinel.
\<close>

definition lab_inv :: "session \<Rightarrow> bool" where
  "lab_inv db = (length (lab_info db) \<le> 1 \<and> list_all (has_id ''lab_settings'') (lab_info db))"

text \<open>Column defaults for two new authors with the ids \<open>a0\<close> and \<open>a1\<close>, for examples.\<close>

definition two_author_ids :: "nat \<Rightarrow> row" where
  "two_author_ids idx = [''id'' \<mapsto> VStr (if idx = 0 then ''a0'' else ''a1'')]"

text \<open>A store with three news rows published at different times, for examples.\<close>

definition three_news_session :: session where
  "three_news_session = empty_session\<lparr>news :=
     [[''id'' \<mapsto> VStr ''n1'', ''publishedAt'' \<mapsto> VDateTime 20],
      [''id'' \<mapsto> VStr ''n2'', ''publishedAt'' \<mapsto> VDateTime 30],
      [''id'' \<mapsto> VStr ''n3'', ''publishedAt'' \<mapsto> VDateTime 10]]\<rparr>"

text \<open>The five bucket names, in the order in which the source writes the dictionary.\<close>

definition bucket_keys :: "string list" where
  "bucket_keys = [''masters'', ''bachelors'', ''phd'', ''other'', ''alumni'']"

text \<open>
  The classification as the spec words it (4.5, rules 1 to 6, first match wins), to be
  compared with the loop body \<open>group_member\<close> taken from the source.
\<close>

definition spec_bucket :: "row \<Rightarrow> string" where
  "spec_bucket m =
     (let status = lower (or_empty (column m ''status''));
          degree = lower (or_empty (column m ''degree''))
      in if status = ''alumni'' then ''alumni''
         else if degree \<in> set [''masters'', ''bachelors'', ''phd'', ''other'', ''alumni''] then degree
         else if degree \<in> set [''phd'', ''ph.d'', ''doctor''] then ''phd''
         else if startswith degree ''master'' then ''masters''
         else if startswith degree ''bachelor'' then ''bachelors''
         else ''other'')"

text \<open>The three members of the spec's grouping example, stored in another order.\<close>

definition amy :: row where
  "amy = [''id'' \<mapsto> VStr ''m1'', ''name'' \<mapsto> VStr ''Amy'', ''degree'' \<mapsto> VStr ''PhD'',
          ''status'' \<mapsto> VStr ''current'']"

definition bo :: row where
  "bo = [''id'' \<mapsto> VStr ''m2'', ''name'' \<mapsto> VStr ''Bo'', ''degree'' \<mapsto> VStr ''Master of Science'',
         ''status'' \<mapsto> VStr ''alumni'']"

definition cy :: row where
  "cy = [''id'' \<mapsto> VStr ''m3'', ''name'' \<mapsto> VStr ''Cy'', ''degree'' \<mapsto> VStr ''Undergraduate'',
         ''status'' \<mapsto> VStr ''current'']"

definition three_member_session :: session where
  "three_member_session = empty_session\<lparr>members := [cy, amy, bo]\<rparr>"

text \<open>A store whose lab-info table holds the sentinel row, for examples.\<close>

definition old_lab_row :: row where
  "old_lab_row = [''id'' \<mapsto> VStr ''lab_settings'', ''labName'' \<mapsto> VStr ''Old Lab'',
                  ''address'' \<mapsto> VStr ''Main Street 1'']"

definition one_lab_session :: session where
  "one_lab_session = empty_session\<lparr>lab_info := [old_lab_row]\<rparr>"

section \<open>Properties of the primitives\<close>

subsection \<open>Dictionaries and attribute loops\<close>

lemma keys_dict_exclude_unset:
  "set (map fst (dict_exclude_unset cls obj)) \<subseteq> set (map fst cls)"
  by (induction cls obj rule: dict_exclude_unset.induct) (auto split: option.splits)

lemma distinct_dict_exclude_unset:
  "distinct (map fst cls) \<Longrightarrow> distinct (map fst (dict_exclude_unset cls obj))"
proof (induction cls obj rule: dict_exclude_unset.induct)
  case (1 obj)
  then show ?case by simp
next
  case (2 k d cls obj)
  have "k \<notin> set (map fst (dict_exclude_unset cls obj))"
    using 2 keys_dict_exclude_unset [of cls obj] by auto
  with 2 show ?case by (auto split: option.splits)
qed

lemma map_of_dict_exclude_unset:
  "map_of (dict_exclude_unset cls obj) k = (if k \<in> set (map fst cls) then obj k else None)"
  by (induction cls obj rule: dict_exclude_unset.induct) (auto split: option.splits)

lemma dict_exclude_unset_empty: "dict_exclude_unset cls Map.empty = []"
  by (induction cls) auto

lemma setattr_items_distinct:
  "distinct (map fst d) \<Longrightarrow> setattr_items obj d = obj ++ map_of d"
proof (induction d arbitrary: obj)
  case Nil
  then show ?case by simp
next
  case (Cons kv d)
  obtain k v where kv: "kv = (k, v)" by (cases kv)
  from Cons.prems kv have nd: "k \<notin> dom (map_of d)" and dd: "distinct (map fst d)"
    by (auto simp: dom_map_of_conv_image_fst)
  have "setattr_items obj (kv # d) = setattr_items (obj(k \<mapsto> v)) d"
    by (simp add: kv setattr_def)
  also have "\<dots> = obj(k \<mapsto> v) ++ map_of d"
    by (rule Cons.IH) (rule dd)
  also have "\<dots> = (obj ++ map_of d)(k \<mapsto> v)"
    using nd by (rule map_add_upd_left)
  also have "\<dots> = obj ++ map_of (kv # d)"
    by (simp add: kv)
  finally show ?case .
qed

lemma map_of_dict_setitem: "map_of (dict_setitem d k v) = (map_of d)(k \<mapsto> v)"
  by (induction d k v rule: dict_setitem.induct) auto

lemma keys_dict_setitem: "fst ` set (dict_setitem d k v) = insert k (fst ` set d)"
  by (induction d k v rule: dict_setitem.induct) auto

lemma distinct_dict_setitem:
  "distinct (map fst d) \<Longrightarrow> distinct (map fst (dict_setitem d k v))"
proof (induction d k v rule: dict_setitem.induct)
  case (1 k v)
  then show ?case by simp
next
  case (2 k' v' d k v)
  show ?case
  proof (cases "k' = k")
    case True
    with 2 show ?thesis by simp
  next
    case False
    with 2 have "k' \<notin> fst ` set (dict_setitem d k v)"
      by (simp add: keys_dict_setitem)
    with 2 False show ?thesis by simp
  qed
qed

lemma fst_dict_pop: "fst (dict_pop d k dflt) = (case map_of d k of Some v \<Rightarrow> v | None \<Rightarrow> dflt)"
  by (simp add: dict_pop_def split: option.splits)

lemma map_of_filter_neq: "map_of (filter (\<lambda>kv. fst kv \<noteq> k) d) = (map_of d)(k := None)"
  by (induction d) auto

lemma map_of_snd_dict_pop: "map_of (snd (dict_pop d k dflt)) = (map_of d)(k := None)"
  by (auto simp: dict_pop_def map_of_filter_neq split: option.splits)

lemma keys_snd_dict_pop: "fst ` set (snd (dict_pop d k dflt)) = fst ` set d - {k}"
  by (auto simp: dict_pop_def map_of_eq_None_iff split: option.splits)

lemma distinct_snd_dict_pop:
  "distinct (map fst d) \<Longrightarrow> distinct (map fst (snd (dict_pop d k dflt)))"
  by (auto simp: dict_pop_def distinct_map_filter split: option.splits)

subsection \<open>Tables\<close>

lemma first_by_id_None: "first_by_id t i = None \<longleftrightarrow> \<not> list_ex (has_id i) t"
  by (auto simp: first_by_id_def find_None_iff list_ex_iff)

lemma first_by_id_Some: "first_by_id t i = Some obj \<Longrightarrow> has_id i obj \<and> obj \<in> set t"
  by (auto simp: first_by_id_def find_Some_iff)

lemma write_back_same: "first_by_id t i = Some obj \<Longrightarrow> write_back t i obj = t"
  by (induction t) (auto simp: first_by_id_def split: if_splits)

lemma first_by_id_write_back:
  "first_by_id t i = Some obj \<Longrightarrow> has_id i obj' \<Longrightarrow> first_by_id (write_back t i obj') i = Some obj'"
  by (induction t) (auto simp: first_by_id_def split: if_splits)

lemma length_write_back: "length (write_back t i obj) = length t"
  by (induction t) auto

lemma has_id_row_id: "has_id i obj \<longleftrightarrow> row_id obj = Some (VStr i)"
  by (simp add: has_id_def row_id_def)

lemma first_by_id_delete_row:
  "wf_table t \<Longrightarrow> first_by_id (delete_row t i) i = None"
  unfolding wf_table_def
proof (induction t)
  case Nil
  then show ?case by (simp add: first_by_id_def)
next
  case (Cons r t)
  show ?case
  proof (cases "has_id i r")
    case True
    with Cons.prems have "\<forall>x\<in>set t. \<not> has_id i x"
      by (auto simp: has_id_row_id image_iff)
    with True show ?thesis by (simp add: first_by_id_def find_None_iff)
  next
    case False
    with Cons show ?thesis by (simp add: first_by_id_def)
  qed
qed

lemma set_delete_row: "obj \<in> set (delete_row t i) \<Longrightarrow> obj \<in> set t"
  by (induction t) (auto split: if_splits)

lemma wf_table_delete_row: "wf_table t \<Longrightarrow> wf_table (delete_row t i)"
  unfolding wf_table_def
  by (induction t) (auto dest: set_delete_row)

lemma insert_row_Inr:
  "insert_row t obj = Inr t' \<Longrightarrow>
     t' = t @ [obj] \<and> (\<exists>i. obj ''id'' = Some (VStr i) \<and> \<not> list_ex (has_id i) t)"
  by (auto simp: insert_row_def split: option.splits val.splits if_splits)

lemma insert_row_fresh:
  "obj ''id'' = Some (VStr i) \<Longrightarrow> \<not> list_ex (has_id i) t \<Longrightarrow> insert_row t obj = Inr (t @ [obj])"
  by (simp add: insert_row_def)

lemma wf_table_insert_row:
  assumes "wf_table t" and "insert_row t obj = Inr t'"
  shows "wf_table t'"
proof -
  from assms(2) obtain i where t': "t' = t @ [obj]" and i: "row_id obj = Some (VStr i)"
    and fresh: "\<not> list_ex (has_id i) t"
    by (auto simp: row_id_def dest: insert_row_Inr)
  from fresh i have "row_id obj \<notin> set (map row_id t)"
    by (auto simp: list_ex_iff has_id_row_id)
  with assms(1) t' show ?thesis by (simp add: wf_table_def)
qed

subsection \<open>Partial updates\<close>

lemma setattr_items_apply:
  "distinct (map fst d) \<Longrightarrow>
     setattr_items obj d k = (case map_of d k of None \<Rightarrow> obj k | Some v \<Rightarrow> Some v)"
  by (simp add: setattr_items_distinct map_add_def)

lemma setattr_items_schema:
  "distinct (map fst cls) \<Longrightarrow>
     setattr_items obj (dict_exclude_unset cls x) k =
       (if k \<in> fst ` set cls then (case x k of None \<Rightarrow> obj k | Some v \<Rightarrow> Some v) else obj k)"
  by (simp add: setattr_items_apply distinct_dict_exclude_unset map_of_dict_exclude_unset)

lemma distinct_PublicationCreate: "distinct (map fst PublicationCreate)"
  by (simp add: PublicationCreate_def)

lemma distinct_AuthorCreate: "distinct (map fst AuthorCreate)"
  by (simp add: AuthorCreate_def)

lemma distinct_NewsCreate: "distinct (map fst NewsCreate)"
  by (simp add: NewsCreate_def)

lemma distinct_MemberUpdate: "distinct (map fst MemberUpdate)"
  by (simp add: MemberUpdate_def)

lemma distinct_ResearchAreaCreate: "distinct (map fst ResearchAreaCreate)"
  by (simp add: ResearchAreaCreate_def)

lemma distinct_LabInfoCreate: "distinct (map fst LabInfoCreate)"
  by (simp add: LabInfoCreate_def)

lemma id_notin_PublicationCreate: "''id'' \<notin> fst ` set PublicationCreate"
  by (simp add: PublicationCreate_def)

lemma id_notin_NewsCreate: "''id'' \<notin> fst ` set NewsCreate"
  by (simp add: NewsCreate_def)

lemma id_notin_MemberUpdate: "''id'' \<notin> fst ` set MemberUpdate"
  by (simp add: MemberUpdate_def)

lemma id_notin_ResearchAreaCreate: "''id'' \<notin> fst ` set ResearchAreaCreate"
  by (simp add: ResearchAreaCreate_def)

lemma id_notin_LabInfoCreate: "''id'' \<notin> fst ` set LabInfoCreate"
  by (simp add: LabInfoCreate_def)

text \<open>The attribute loop of a partial update, on the object found by id.\<close>

lemma partial_update_frame:
  assumes "distinct (map fst cls)"
  shows "x k = None \<Longrightarrow> setattr_items obj (dict_exclude_unset cls x) k = obj k"
  using assms by (simp add: setattr_items_schema)

lemma partial_update_keeps_id:
  assumes "distinct (map fst cls)" and "''id'' \<notin> fst ` set cls" and "has_id i obj"
  shows "has_id i (setattr_items obj (dict_exclude_unset cls x))"
  using assms by (simp add: has_id_def setattr_items_schema)

lemma update_publication_alt:
  "update_publication db i x =
     (case first_by_id (publications db) i of
        None \<Rightarrow> (None, db)
      | Some obj \<Rightarrow>
          (Some (setattr_items obj (publication_updates x)),
           db\<lparr>publications :=
                write_back (publications db) i (setattr_items obj (publication_updates x))\<rparr>))"
  by (simp add: update_publication_def publication_updates_def Let_def split: option.splits)

lemma dict_contains_exclude_unset:
  "dict_contains (dict_exclude_unset cls x) k \<longleftrightarrow> k \<in> fst ` set cls \<and> x k \<noteq> None"
proof -
  have "dict_contains (dict_exclude_unset cls x) k \<longleftrightarrow> map_of (dict_exclude_unset cls x) k \<noteq> None"
    by (simp add: dict_contains_def map_of_eq_None_iff)
  then show ?thesis by (simp add: map_of_dict_exclude_unset)
qed

lemma distinct_publication_updates: "distinct (map fst (publication_updates x))"
  by (simp add: publication_updates_def Let_def split_beta distinct_dict_setitem
      distinct_snd_dict_pop distinct_dict_exclude_unset distinct_PublicationCreate)

lemma map_of_publication_updates:
  "map_of (publication_updates x) k =
     (case x ''order'' of
        None \<Rightarrow> (if k \<in> fst ` set PublicationCreate then x k else None)
      | Some v \<Rightarrow>
          (if k = ''displayOrder'' then Some v
           else if k = ''order'' then None
           else if k \<in> fst ` set PublicationCreate then x k else None))"
proof (cases "x ''order''")
  case None
  then show ?thesis
    by (simp add: publication_updates_def Let_def dict_contains_exclude_unset
        map_of_dict_exclude_unset)
next
  case (Some v)
  have o: "''order'' \<in> fst ` set PublicationCreate" by (simp add: PublicationCreate_def)
  with Some show ?thesis
    by (simp add: publication_updates_def Let_def dict_contains_exclude_unset split_beta
        map_of_dict_setitem map_of_snd_dict_pop fst_dict_pop map_of_dict_exclude_unset)
qed

lemma update_publication_frame:
  assumes "x k = None" and "k = ''displayOrder'' \<longrightarrow> x ''order'' = None"
  shows "setattr_items obj (publication_updates x) k = obj k"
  using assms
  by (simp add: setattr_items_apply distinct_publication_updates map_of_publication_updates
      split: option.splits)

lemma publication_updates_keep_id:
  assumes "has_id i obj"
  shows "has_id i (setattr_items obj (publication_updates x))"
proof -
  have "map_of (publication_updates x) ''id'' = None"
    using id_notin_PublicationCreate
    by (simp add: map_of_publication_updates split: option.splits)
  with assms show ?thesis
    by (simp add: has_id_def setattr_items_apply distinct_publication_updates)
qed

lemma publication_updates_empty: "publication_updates Map.empty = []"
  by (simp add: publication_updates_def dict_exclude_unset_empty dict_contains_def)

subsection \<open>Deleting twice\<close>

lemma delete_row_twice:
  assumes "wf_table t" and "list_ex (has_id i) t"
  shows "first_by_id t i \<noteq> None \<and> first_by_id (delete_row t i) i = None"
  using assms by (simp add: first_by_id_None first_by_id_delete_row)

lemma partial_update_found:
  assumes d: "distinct (map fst cls)" and n: "''id'' \<notin> fst ` set cls"
    and f: "first_by_id t i = Some obj"
  shows "setattr_items obj (dict_exclude_unset cls Map.empty) = obj"
    and "first_by_id (write_back t i (setattr_items obj (dict_exclude_unset cls x))) i =
           Some (setattr_items obj (dict_exclude_unset cls x))"
    and "\<forall>k. x k = None \<longrightarrow> setattr_items obj (dict_exclude_unset cls x) k = obj k"
proof -
  show "setattr_items obj (dict_exclude_unset cls Map.empty) = obj"
    by (simp add: dict_exclude_unset_empty)
  from f have "has_id i obj" by (simp add: first_by_id_Some)
  with d n have "has_id i (setattr_items obj (dict_exclude_unset cls x))"
    by (rule partial_update_keeps_id)
  with f show "first_by_id (write_back t i (setattr_items obj (dict_exclude_unset cls x))) i =
           Some (setattr_items obj (dict_exclude_unset cls x))"
    by (rule first_by_id_write_back)
  show "\<forall>k. x k = None \<longrightarrow> setattr_items obj (dict_exclude_unset cls x) k = obj k"
    using d by (simp add: partial_update_frame)
qed

subsection \<open>Lab info\<close>

lemma setattr_items_twice:
  assumes "distinct (map fst d)"
  shows "setattr_items (setattr_items obj d) d = setattr_items obj d"
  using assms by (intro ext) (simp add: setattr_items_distinct map_add_def split: option.splits)

lemma lab_payload_id:
  "setattr_items obj ((''id'', VStr ''lab_settings'') # dict_exclude_unset LabInfoCreate x) ''id''
     = Some (VStr ''lab_settings'')"
proof -
  have "setattr_items (obj(''id'' \<mapsto> VStr ''lab_settings'')) (dict_exclude_unset LabInfoCreate x) ''id''
      = (obj(''id'' \<mapsto> VStr ''lab_settings'')) ''id''"
    using id_notin_LabInfoCreate by (simp add: setattr_items_schema distinct_LabInfoCreate)
  then show ?thesis by (simp add: setattr_def)
qed

text \<open>The two branches of \<^verbatim>\<open>create_or_update_lab_info\<close>.\<close>

lemma create_or_update_found:
  assumes "first_by_id (lab_info db) ''lab_settings'' = Some obj"
  shows "create_or_update_lab_info db new x =
     Inr (setattr_items obj (dict_exclude_unset LabInfoCreate x),
          db\<lparr>lab_info := write_back (lab_info db) ''lab_settings''
                 (setattr_items obj (dict_exclude_unset LabInfoCreate x))\<rparr>)"
  using assms by (simp add: create_or_update_lab_info_def Let_def)

lemma create_or_update_missing:
  assumes "first_by_id (lab_info db) ''lab_settings'' = None"
  shows "create_or_update_lab_info db new x =
     Inr (construct new ((''id'', VStr ''lab_settings'') # dict_exclude_unset LabInfoCreate x),
          db\<lparr>lab_info := lab_info db @
                 [construct new ((''id'', VStr ''lab_settings'') # dict_exclude_unset LabInfoCreate x)]\<rparr>)"
proof -
  from assms have "\<not> list_ex (has_id ''lab_settings'') (lab_info db)"
    by (simp add: first_by_id_None)
  then have "insert_row (lab_info db)
      (construct new ((''id'', VStr ''lab_settings'') # dict_exclude_unset LabInfoCreate x))
    = Inr (lab_info db @
        [construct new ((''id'', VStr ''lab_settings'') # dict_exclude_unset LabInfoCreate x)])"
    by (intro insert_row_fresh) (simp_all add: construct_def lab_payload_id del: setattr_items.simps)
  with assms show ?thesis
    by (simp add: create_or_update_lab_info_def Let_def del: setattr_items.simps)
qed

lemma first_by_id_append_fresh:
  "first_by_id t i = None \<Longrightarrow> has_id i obj \<Longrightarrow> first_by_id (t @ [obj]) i = Some obj"
  by (induction t) (auto simp: first_by_id_def split: if_splits)

lemma create_or_update_total:
  "\<exists>obj db'. create_or_update_lab_info db new x = Inr (obj, db')"
  by (cases "first_by_id (lab_info db) ''lab_settings''")
     (simp_all add: create_or_update_missing create_or_update_found)

lemma create_or_update_result:
  assumes "create_or_update_lab_info db new x = Inr (obj, db')"
  shows "first_by_id (lab_info db') ''lab_settings'' = Some obj"
    and "setattr_items obj (dict_exclude_unset LabInfoCreate x) = obj"
proof -
  let ?d = "dict_exclude_unset LabInfoCreate x"
  have dd: "distinct (map fst ?d)"
    by (simp add: distinct_dict_exclude_unset distinct_LabInfoCreate)
  show "first_by_id (lab_info db') ''lab_settings'' = Some obj"
  proof (cases "first_by_id (lab_info db) ''lab_settings''")
    case None
    with assms have obj: "obj = construct new ((''id'', VStr ''lab_settings'') # ?d)"
      and db': "lab_info db' = lab_info db @ [obj]"
      by (auto simp: create_or_update_missing)
    from obj have "has_id ''lab_settings'' obj"
      by (simp add: has_id_def construct_def lab_payload_id del: setattr_items.simps)
    with None db' show ?thesis by (simp add: first_by_id_append_fresh)
  next
    case (Some old)
    with assms have obj: "obj = setattr_items old ?d"
      and db': "lab_info db' = write_back (lab_info db) ''lab_settings'' obj"
      by (auto simp: create_or_update_found)
    from Some have "has_id ''lab_settings'' old" by (simp add: first_by_id_Some)
    then have "has_id ''lab_settings'' obj"
      unfolding obj
      by (rule partial_update_keeps_id [OF distinct_LabInfoCreate id_notin_LabInfoCreate])
    with Some db' show ?thesis by (simp add: first_by_id_write_back)
  qed
  show "setattr_items obj ?d = obj"
  proof (cases "first_by_id (lab_info db) ''lab_settings''")
    case None
    with assms have "obj = setattr_items (setattr new ''id'' (VStr ''lab_settings'')) ?d"
      by (auto simp: create_or_update_missing construct_def)
    then show ?thesis using dd by (simp add: setattr_items_twice)
  next
    case (Some old)
    with assms have "obj = setattr_items old ?d"
      by (auto simp: create_or_update_found)
    then show ?thesis using dd by (simp add: setattr_items_twice)
  qed
qed

lemma create_or_update_idempotent:
  assumes "create_or_update_lab_info db new x = Inr (obj, db')"
  shows "create_or_update_lab_info db' new' x = Inr (obj, db')"
proof -
  note r = create_or_update_result [OF assms]
  from r(1) have "write_back (lab_info db') ''lab_settings'' obj = lab_info db'"
    by (rule write_back_same)
  with r show ?thesis by (simp add: create_or_update_found)
qed

lemma lab_inv_cases:
  assumes "lab_inv db"
  shows "(lab_info db = [] \<and> first_by_id (lab_info db) ''lab_settings'' = None) \<or>
         (\<exists>old. lab_info db = [old] \<and> first_by_id (lab_info db) ''lab_settings'' = Some old)"
proof (cases "lab_info db")
  case Nil
  then show ?thesis by (simp add: first_by_id_def)
next
  case (Cons old rest)
  with assms have "rest = []" and "has_id ''lab_settings'' old"
    by (simp_all add: lab_inv_def)
  with Cons show ?thesis by (simp add: first_by_id_def)
qed

lemma create_or_update_singleton:
  assumes "lab_inv db" and "create_or_update_lab_info db new x = Inr (obj, db')"
  shows "lab_info db' = [obj] \<and> has_id ''lab_settings'' obj"
proof -
  from create_or_update_result(1) [OF assms(2)] have h: "has_id ''lab_settings'' obj"
    by (simp add: first_by_id_Some)
  from lab_inv_cases [OF assms(1)] show ?thesis
  proof (elim disjE conjE exE)
    assume "lab_info db = []" and "first_by_id (lab_info db) ''lab_settings'' = None"
    with assms(2) h show ?thesis by (auto simp: create_or_update_missing)
  next
    fix old
    assume "lab_info db = [old]" and f: "first_by_id (lab_info db) ''lab_settings'' = Some old"
    moreover from f have "has_id ''lab_settings'' old" by (simp add: first_by_id_Some)
    ultimately show ?thesis using assms(2) h by (auto simp: create_or_update_found)
  qed
qed

lemma lab_inv_step: "lab_inv db \<Longrightarrow> lab_inv (lab_step db c)"
proof (cases c)
  case GetLabInfo
  assume "lab_inv db"
  with GetLabInfo show ?thesis by simp
next
  case (CreateOrUpdateLabInfo new x)
  assume i: "lab_inv db"
  obtain obj db' where r: "create_or_update_lab_info db new x = Inr (obj, db')"
    using create_or_update_total by blast
  from create_or_update_singleton [OF i r] have "lab_inv db'"
    by (simp add: lab_inv_def)
  with CreateOrUpdateLabInfo r show ?thesis by simp
qed

lemma lab_inv_run: "lab_inv db \<Longrightarrow> lab_inv (lab_run db cs)"
  by (induction cs arbitrary: db) (simp_all add: lab_inv_step)

subsection \<open>Renaming \<open>order\<close> to \<open>displayOrder\<close> at creation\<close>

lemma renamed_payload:
  assumes d: "distinct (map fst cls)"
    and e: "extra \<notin> fst ` set cls" "extra \<noteq> ''displayOrder''"
  shows "construct new
           (dict_setitem (snd (dict_pop (dict_exclude_unset cls x) ''order'' dflt)) ''displayOrder''
              (fst (dict_pop (dict_exclude_unset cls x) ''order'' dflt)) @ [(extra, ev)]) k =
         (if k = extra then Some ev
          else if k = ''displayOrder''
            then Some (case (if ''order'' \<in> fst ` set cls then x ''order'' else None) of
                         Some v \<Rightarrow> v | None \<Rightarrow> dflt)
          else if k = ''order'' then new k
          else if k \<in> fst ` set cls then (case x k of None \<Rightarrow> new k | Some v \<Rightarrow> Some v)
          else new k)"
proof -
  define pd where "pd = dict_exclude_unset cls x"
  define v where "v = fst (dict_pop pd ''order'' dflt)"
  define rest where "rest = snd (dict_pop pd ''order'' dflt)"
  define pd'' where "pd'' = dict_setitem rest ''displayOrder'' v"
  have dd: "distinct (map fst pd)"
    unfolding pd_def using d by (rule distinct_dict_exclude_unset)
  then have d2: "distinct (map fst pd'')"
    unfolding pd''_def rest_def by (intro distinct_dict_setitem distinct_snd_dict_pop)
  have "fst ` set pd'' \<subseteq> insert ''displayOrder'' (fst ` set cls)"
    using keys_dict_exclude_unset [of cls x]
    by (auto simp: pd''_def rest_def pd_def keys_dict_setitem keys_snd_dict_pop)
  with e have ne: "extra \<notin> fst ` set pd''" by auto
  with d2 have d3: "distinct (map fst (pd'' @ [(extra, ev)]))" by simp
  have mpd: "map_of pd k = (if k \<in> fst ` set cls then x k else None)" for k
    by (simp add: pd_def map_of_dict_exclude_unset)
  have mk: "map_of pd'' k =
      (if k = ''displayOrder'' then Some v else if k = ''order'' then None else map_of pd k)"
    by (simp add: pd''_def rest_def map_of_dict_setitem map_of_snd_dict_pop)
  have vv: "v = (case (if ''order'' \<in> fst ` set cls then x ''order'' else None) of
                         Some v \<Rightarrow> v | None \<Rightarrow> dflt)"
    by (simp add: v_def fst_dict_pop mpd)
  from ne have mx: "map_of pd'' extra = None" by (simp add: map_of_eq_None_iff)
  have ma: "map_of (pd'' @ [(extra, ev)]) k = (if k = extra then Some ev else map_of pd'' k)"
    using mx by (simp add: map_add_def split: option.splits)
  have "construct new (pd'' @ [(extra, ev)]) k =
      (case map_of (pd'' @ [(extra, ev)]) k of None \<Rightarrow> new k | Some v \<Rightarrow> Some v)"
    unfolding construct_def by (rule setattr_items_apply [OF d3])
  also have "\<dots> = (if k = extra then Some ev
          else if k = ''displayOrder'' then Some v
          else if k = ''order'' then new k
          else if k \<in> fst ` set cls then (case x k of None \<Rightarrow> new k | Some v \<Rightarrow> Some v)
          else new k)"
    unfolding ma mk mpd by simp
  finally show ?thesis
    unfolding vv [symmetric] pd''_def rest_def v_def pd_def .
qed

lemma author_of_entry_apply:
  "author_of_entry new pid idx a k =
     (if k = ''publicationId'' then Some pid
      else if k = ''displayOrder''
        then Some (case a ''order'' of Some v \<Rightarrow> v | None \<Rightarrow> VInt (int idx))
      else if k = ''order'' then new k
      else if k \<in> {''name'', ''homepage''} then (case a k of None \<Rightarrow> new k | Some v \<Rightarrow> Some v)
      else new k)"
proof -
  have e: "''publicationId'' \<notin> fst ` set AuthorCreate" "''publicationId'' \<noteq> ''displayOrder''"
    by (simp_all add: AuthorCreate_def)
  have "author_of_entry new pid idx a k =
     construct new
       (dict_setitem (snd (dict_pop (dict_exclude_unset AuthorCreate a) ''order'' (VInt (int idx))))
          ''displayOrder''
          (fst (dict_pop (dict_exclude_unset AuthorCreate a) ''order'' (VInt (int idx))))
        @ [(''publicationId'', pid)]) k"
    by (simp add: author_of_entry_def Let_def split_beta)
  also note renamed_payload [OF distinct_AuthorCreate e]
  finally show ?thesis by (auto simp: AuthorCreate_def)
qed

lemma length_author_rows: "length (author_rows na pid idx xs) = length xs"
  by (induction xs arbitrary: idx) auto

lemma author_rows_nth:
  "i < length xs \<Longrightarrow>
     author_rows na pid idx xs ! i = author_of_entry (na (idx + i)) pid (idx + i) (xs ! i)"
proof (induction xs arbitrary: idx i)
  case Nil
  then show ?case by simp
next
  case (Cons a xs)
  then show ?case by (cases i) auto
qed

lemma insert_rows_Inr: "insert_rows t objs = Inr t' \<Longrightarrow> t' = t @ objs"
proof (induction objs arbitrary: t)
  case Nil
  then show ?case by simp
next
  case (Cons obj objs)
  from Cons.prems obtain t1 where a: "insert_row t obj = Inr t1" and b: "insert_rows t1 objs = Inr t'"
    by (auto split: sum.splits)
  from a have "t1 = t @ [obj]" by (simp add: insert_row_Inr)
  moreover from b have "t' = t1 @ objs" by (rule Cons.IH)
  ultimately show ?case by simp
qed

lemma insert_rows_fresh:
  assumes "distinct (map row_id objs)"
    and "\<forall>obj\<in>set objs. \<exists>j. obj ''id'' = Some (VStr j) \<and> \<not> list_ex (has_id j) t"
  shows "insert_rows t objs = Inr (t @ objs)"
  using assms
proof (induction objs arbitrary: t)
  case Nil
  then show ?case by simp
next
  case (Cons obj objs)
  from Cons.prems(2) obtain j where j: "obj ''id'' = Some (VStr j)" "\<not> list_ex (has_id j) t"
    by auto
  then have i: "insert_row t obj = Inr (t @ [obj])" by (rule insert_row_fresh)
  have "\<forall>o'\<in>set objs. \<exists>j. o' ''id'' = Some (VStr j) \<and> \<not> list_ex (has_id j) (t @ [obj])"
  proof
    fix o' assume o': "o' \<in> set objs"
    with Cons.prems(2) obtain j' where j': "o' ''id'' = Some (VStr j')" "\<not> list_ex (has_id j') t"
      by auto
    from o' Cons.prems(1) have "row_id o' \<noteq> row_id obj" by (auto simp: image_iff)
    with j' have "\<not> has_id j' obj" by (auto simp: has_id_def row_id_def)
    with j' show "\<exists>j. o' ''id'' = Some (VStr j) \<and> \<not> list_ex (has_id j) (t @ [obj])"
      by (auto simp: list_ex_iff)
  qed
  moreover from Cons.prems(1) have "distinct (map row_id objs)" by simp
  ultimately have "insert_rows (t @ [obj]) objs = Inr ((t @ [obj]) @ objs)"
    by (intro Cons.IH)
  with i show ?case by simp
qed

lemma publication_object_apply:
  "construct new
     (dict_setitem (snd (dict_pop (dict_exclude_unset PublicationCreate x) ''order'' (VInt 0)))
        ''displayOrder''
        (fst (dict_pop (dict_exclude_unset PublicationCreate x) ''order'' (VInt 0)))
      @ [(''authorId'', VStr author_id)]) k =
   (if k = ''authorId'' then Some (VStr author_id)
    else if k = ''displayOrder'' then Some (case x ''order'' of Some v \<Rightarrow> v | None \<Rightarrow> VInt 0)
    else if k = ''order'' then new k
    else if k \<in> fst ` set PublicationCreate then (case x k of None \<Rightarrow> new k | Some v \<Rightarrow> Some v)
    else new k)"
proof -
  have e: "''authorId'' \<notin> fst ` set PublicationCreate" "''authorId'' \<noteq> ''displayOrder''"
    by (simp_all add: PublicationCreate_def)
  have o: "''order'' \<in> fst ` set PublicationCreate" by (simp add: PublicationCreate_def)
  show ?thesis
    unfolding renamed_payload [OF distinct_PublicationCreate e] using o by simp
qed

subsection \<open>Publication creation\<close>

lemma create_publication_Inr:
  assumes "create_publication db np na pub aid xs = Inr (p, db')"
  shows "p = construct np
           (dict_setitem (snd (dict_pop (dict_exclude_unset PublicationCreate pub) ''order'' (VInt 0)))
              ''displayOrder''
              (fst (dict_pop (dict_exclude_unset PublicationCreate pub) ''order'' (VInt 0)))
            @ [(''authorId'', VStr aid)])"
    and "publications db' = publications db @ [p]"
    and "authors db' = authors db @ author_rows na (column p ''id'') 0 xs"
    and "\<exists>i. p ''id'' = Some (VStr i)"
  using assms
  by (auto simp: create_publication_def Let_def split_beta
      split: sum.splits dest!: insert_row_Inr insert_rows_Inr)

lemma create_publication_succeeds:
  assumes p: "np ''id'' = Some (VStr pid)" "\<not> list_ex (has_id pid) (publications db)"
    and a: "\<forall>i<length xs. \<exists>j. na i ''id'' = Some (VStr j) \<and> \<not> list_ex (has_id j) (authors db)"
    and inj: "inj_on (\<lambda>i. na i ''id'') {..<length xs}"
  shows "\<exists>obj db'. create_publication db np na pub aid xs = Inr (obj, db')"
proof -
  let ?p = "construct np
           (dict_setitem (snd (dict_pop (dict_exclude_unset PublicationCreate pub) ''order'' (VInt 0)))
              ''displayOrder''
              (fst (dict_pop (dict_exclude_unset PublicationCreate pub) ''order'' (VInt 0)))
            @ [(''authorId'', VStr aid)])"
  let ?rows = "author_rows na (column ?p ''id'') 0 xs"
  have "?p ''id'' = np ''id''"
    using id_notin_PublicationCreate by (simp add: publication_object_apply)
  with p have 1: "insert_row (publications db) ?p = Inr (publications db @ [?p])"
    by (intro insert_row_fresh) simp_all
  have "distinct (map row_id ?rows)"
    unfolding distinct_conv_nth
  proof (intro allI impI)
    fix i j
    assume i: "i < length (map row_id ?rows)" and j: "j < length (map row_id ?rows)"
      and ij: "i \<noteq> j"
    from i j have "map row_id ?rows ! i = na i ''id''" "map row_id ?rows ! j = na j ''id''"
      by (simp_all add: length_author_rows author_rows_nth author_of_entry_apply row_id_def)
    moreover from i j ij inj have "na i ''id'' \<noteq> na j ''id''"
      by (auto simp: length_author_rows inj_on_def)
    ultimately show "map row_id ?rows ! i \<noteq> map row_id ?rows ! j" by simp
  qed
  moreover have "\<forall>obj\<in>set ?rows. \<exists>j. obj ''id'' = Some (VStr j) \<and> \<not> list_ex (has_id j) (authors db)"
  proof
    fix obj assume "obj \<in> set ?rows"
    then obtain i where i: "i < length xs" and o: "obj = ?rows ! i"
      by (auto simp: in_set_conv_nth length_author_rows)
    from i o have "obj ''id'' = na i ''id''"
      by (simp add: author_rows_nth author_of_entry_apply)
    with a i show "\<exists>j. obj ''id'' = Some (VStr j) \<and> \<not> list_ex (has_id j) (authors db)" by auto
  qed
  ultimately have 2: "insert_rows (authors db) ?rows = Inr (authors db @ ?rows)"
    by (rule insert_rows_fresh)
  from 1 2 show ?thesis
    by (simp add: create_publication_def Let_def split_beta)
qed

subsection \<open>Standalone author creation\<close>

lemma create_author_Inr:
  assumes "create_author db new author pid = Inr (a, db')"
  shows "authors db' = authors db @ [a]"
    and "\<exists>name homepage. getattr AuthorCreate author ''name'' = Inr name \<and>
           getattr AuthorCreate author ''homepage'' = Inr homepage \<and>
           a = new(''name'' \<mapsto> name, ''homepage'' \<mapsto> homepage, ''publicationId'' \<mapsto> VStr pid)"
  using assms
  by (auto simp: create_author_def Let_def construct_def setattr_def
      split: sum.splits dest!: insert_row_Inr)

subsection \<open>Ordered queries\<close>

lemma sorted_wrt_order_by_desc:
  "sorted_wrt (\<lambda>a b. key a \<ge> key b) (order_by_desc key t)"
proof -
  have "sorted (map key (sort_key key t))" by (rule sorted_sort_key)
  then have "sorted_wrt (\<lambda>a b. key a \<le> key b) (sort_key key t)"
    by (simp add: sorted_map)
  then have "sorted_wrt (\<lambda>a b. key b \<le> key a) (rev (sort_key key t))"
    by (simp add: sorted_wrt_rev)
  then show ?thesis by (simp add: order_by_desc_def)
qed

lemma mset_order_by_desc: "mset (order_by_desc key t) = mset t"
  by (simp add: order_by_desc_def)

lemma top_two_of_three:
  fixes key :: "'a \<Rightarrow> 'k::linorder"
  assumes s: "sorted_wrt (\<lambda>a b. key a \<ge> key b) ys" and m: "mset ys = mset xs"
    and l: "length xs = 3" and d: "distinct (map key xs)"
  shows "\<exists>a b c. take 2 ys = [a, b] \<and> mset xs = {#a, b, c#} \<and> key a > key b \<and> key b > key c"
proof -
  from m have "length ys = length xs" by (rule mset_eq_length)
  with l obtain a b c where ys: "ys = [a, b, c]"
    by (cases ys; cases "tl ys"; cases "tl (tl ys)"; cases "tl (tl (tl ys))") auto
  from m have "mset (map key ys) = mset (map key xs)" by simp
  then have "distinct (map key ys) \<longleftrightarrow> distinct (map key xs)"
    by (rule mset_eq_imp_distinct_iff)
  with d have "distinct (map key ys)" by blast
  with s ys have "key a > key b" "key b > key c" by (auto simp: less_le)
  moreover from m ys have "mset xs = {#a, b, c#}" by simp
  ultimately show ?thesis using ys by simp
qed

lemma spec_bucket_examples:
  "spec_bucket amy = ''phd''" "spec_bucket bo = ''alumni''" "spec_bucket cy = ''other''"
  by code_simp+

lemma get_members_example: "get_members three_member_session = [amy, bo, cy]"
  by (simp add: get_members_def order_by_asc_def three_member_session_def empty_session_def
      member_name_def amy_def bo_def cy_def)

subsection \<open>Member grouping\<close>

lemma keys_grouped_append: "map fst (grouped_append g key m) = map fst g"
  by (induction g key m rule: grouped_append.induct) auto

lemma grouped_append_distinct:
  "distinct (map fst g) \<Longrightarrow>
     grouped_append g key m = map (\<lambda>(k, ms). (k, if k = key then ms @ [m] else ms)) g"
proof (induction g key m rule: grouped_append.induct)
  case (1 key m)
  then show ?case by simp
next
  case (2 k ms g key m)
  show ?case
  proof (cases "k = key")
    case True
    with 2 have "key \<notin> fst ` set g" by simp
    then have "map (\<lambda>(k, ms). (k, if k = key then ms @ [m] else ms)) g = g"
      by (induction g) auto
    with True show ?thesis by simp
  next
    case False
    with 2 show ?thesis by simp
  qed
qed

lemma group_member_spec:
  assumes "set (map fst g) = set bucket_keys"
  shows "group_member g m = grouped_append g (spec_bucket m) m"
proof -
  have "dict_contains g deg \<longleftrightarrow> deg \<in> set [''masters'', ''bachelors'', ''phd'', ''other'', ''alumni'']"
    for deg
    using assms by (simp add: dict_contains_def bucket_keys_def)
  then show ?thesis
    by (simp add: group_member_def spec_bucket_def Let_def)
qed

lemma group_members_spec:
  assumes "distinct (map fst g)" and "set (map fst g) = set bucket_keys"
  shows "group_members g ms =
           map (\<lambda>(k, old). (k, old @ filter (\<lambda>m. spec_bucket m = k) ms)) g"
  using assms
proof (induction ms arbitrary: g)
  case Nil
  then show ?case by simp
next
  case (Cons m ms)
  let ?g' = "grouped_append g (spec_bucket m) m"
  have k: "map fst ?g' = map fst g" by (rule keys_grouped_append)
  with Cons.prems have "group_members ?g' ms =
      map (\<lambda>(k, old). (k, old @ filter (\<lambda>m. spec_bucket m = k) ms)) ?g'"
    by (intro Cons.IH) simp_all
  moreover have "?g' = map (\<lambda>(k, ms). (k, if k = spec_bucket m then ms @ [m] else ms)) g"
    using Cons.prems(1) by (rule grouped_append_distinct)
  ultimately have "group_members ?g' ms =
      map (\<lambda>(k, old). (k, old @ filter (\<lambda>m. spec_bucket m = k) (m # ms))) g"
    by (auto simp: comp_def split_beta)
  with Cons.prems(2) show ?case by (simp add: group_member_spec)
qed

lemma get_members_by_degree_level_spec:
  "get_members_by_degree_level db =
     map (\<lambda>k. (k, filter (\<lambda>m. spec_bucket m = k) (get_members db))) bucket_keys"
proof -
  let ?g = "[(''masters'', []), (''bachelors'', []), (''phd'', []), (''other'', []), (''alumni'', [])]
              :: grouped"
  have "distinct (map fst ?g)" "set (map fst ?g) = set bucket_keys"
    by (simp_all add: bucket_keys_def)
  then have "group_members ?g (get_members db) =
      map (\<lambda>(k, old). (k, old @ filter (\<lambda>m. spec_bucket m = k) (get_members db))) ?g"
    by (rule group_members_spec)
  then show ?thesis
    by (simp add: get_members_by_degree_level_def get_members_def bucket_keys_def)
qed

lemma spec_bucket_in_keys: "spec_bucket m \<in> set bucket_keys"
  by (auto simp: spec_bucket_def bucket_keys_def Let_def)

lemma lower_Nil: "lower [] = []"
  by (simp add: lower_def)

lemma spec_bucket_no_degree:
  assumes "lower (or_empty (column m ''status'')) \<noteq> ''alumni''"
    and "or_empty (column m ''degree'') = []"
  shows "spec_bucket m = ''other''"
  using assms by (simp add: spec_bucket_def lower_Nil startswith_def)

lemma sorted_get_members: "sorted (map member_name (get_members db))"
  by (simp add: get_members_def order_by_asc_def)

lemma mset_get_members: "mset (get_members db) = mset (members db)"
  by (simp add: get_members_def order_by_asc_def)

lemma mset_buckets:
  "mset (concat (map (\<lambda>k. filter (\<lambda>m. spec_bucket m = k) ms) bucket_keys)) = mset ms"
proof (induction ms)
  case Nil
  then show ?case by (simp add: bucket_keys_def)
next
  case (Cons m ms)
  from spec_bucket_in_keys [of m]
  consider "spec_bucket m = ''masters''" | "spec_bucket m = ''bachelors''"
    | "spec_bucket m = ''phd''" | "spec_bucket m = ''other''" | "spec_bucket m = ''alumni''"
    by (auto simp: bucket_keys_def)
  then show ?case
    using Cons.IH by cases (simp_all add: bucket_keys_def)
qed

section \<open>User creation (C7)\<close>

text \<open>
  C7. \<^verbatim>\<open>create_user\<close> persists the new user with \<open>isApproved = False\<close> and
  \<open>isAdmin = False\<close>, whatever the input, the password hash and the column defaults
  say: when the call returns, the returned row is the one appended to the users table
  and both flags are false; two inputs that differ only in an \<open>isApproved\<close> or
  \<open>isAdmin\<close> entry give the same result; and the call does return whenever the three
  name fields are set and the generated id is fresh.
\<close>

theorem create_user_unapproved_nonadmin:
  "(create_user db new user hp = Inr (u, db') \<longrightarrow>
      u ''isApproved'' = Some (VBool False) \<and> u ''isAdmin'' = Some (VBool False) \<and>
      users db' = users db @ [u])
   \<and> ((\<forall>k. k \<notin> {''isApproved'', ''isAdmin''} \<longrightarrow> user k = user' k) \<longrightarrow>
        create_user db new user hp = create_user db new user' hp)
   \<and> (user ''email'' = Some e \<and> user ''firstName'' = Some f \<and> user ''lastName'' = Some l \<and>
        new ''id'' = Some (VStr i) \<and> \<not> list_ex (has_id i) (users db) \<longrightarrow>
        (\<exists>u db'. create_user db new user hp = Inr (u, db')))"
proof (intro conjI impI)
  assume h: "create_user db new user hp = Inr (u, db')"
  then show "u ''isApproved'' = Some (VBool False)"
    by (auto simp: create_user_def Let_def construct_def setattr_def split: sum.splits)
  from h show "u ''isAdmin'' = Some (VBool False)"
    by (auto simp: create_user_def Let_def construct_def setattr_def split: sum.splits)
  from h show "users db' = users db @ [u]"
    by (auto simp: create_user_def Let_def split: sum.splits dest: insert_row_Inr)
next
  assume "\<forall>k. k \<notin> {''isApproved'', ''isAdmin''} \<longrightarrow> user k = user' k"
  then have e: "getattr UserCreate user ''email'' = getattr UserCreate user' ''email''"
    "getattr UserCreate user ''firstName'' = getattr UserCreate user' ''firstName''"
    "getattr UserCreate user ''lastName'' = getattr UserCreate user' ''lastName''"
    by (simp_all add: getattr_def)
  show "create_user db new user hp = create_user db new user' hp"
    unfolding create_user_def e ..
next
  assume "user ''email'' = Some e \<and> user ''firstName'' = Some f \<and> user ''lastName'' = Some l \<and>
        new ''id'' = Some (VStr i) \<and> \<not> list_ex (has_id i) (users db)"
  then show "\<exists>u db'. create_user db new user hp = Inr (u, db')"
    by (simp add: create_user_def getattr_def Let_def insert_row_def construct_def setattr_def)
qed

theorem create_user_unapproved_nonadmin_witness:
  "\<exists>u db'. create_user empty_session [''id'' \<mapsto> VStr ''u1'', ''isAdmin'' \<mapsto> VBool True]
       [''email'' \<mapsto> VStr ''a@b.c'', ''firstName'' \<mapsto> VStr ''A'', ''lastName'' \<mapsto> VStr ''B'',
        ''password'' \<mapsto> VStr ''pw'', ''isApproved'' \<mapsto> VBool True, ''isAdmin'' \<mapsto> VBool True]
       ''hash'' = Inr (u, db')
     \<and> u ''isApproved'' = Some (VBool False) \<and> u ''isAdmin'' = Some (VBool False)
     \<and> users db' = [u]"
proof -
  let ?new = "[''id'' \<mapsto> VStr ''u1'', ''isAdmin'' \<mapsto> VBool True]"
  let ?user = "[''email'' \<mapsto> VStr ''a@b.c'', ''firstName'' \<mapsto> VStr ''A'',
        ''lastName'' \<mapsto> VStr ''B'', ''password'' \<mapsto> VStr ''pw'',
        ''isApproved'' \<mapsto> VBool True, ''isAdmin'' \<mapsto> VBool True]"
  have "\<exists>u db'. create_user empty_session ?new ?user ''hash'' = Inr (u, db')"
    by (simp add: create_user_def getattr_def Let_def insert_row_def construct_def setattr_def
        empty_session_def)
  then obtain u db' where h: "create_user empty_session ?new ?user ''hash'' = Inr (u, db')"
    by blast
  with create_user_unapproved_nonadmin [of empty_session ?new ?user "''hash''" u db' ?user]
  have "u ''isApproved'' = Some (VBool False) \<and> u ''isAdmin'' = Some (VBool False) \<and>
      users db' = users empty_session @ [u]" by blast
  with h show ?thesis by (auto simp: empty_session_def)
qed

section \<open>Identifiers that do not resolve (C3)\<close>

text \<open>
  C3. A lookup, update or delete on an id that no row of the table carries never raises:
  the reads by id and the updates return \<open>None\<close> and the deletes return \<open>False\<close>, the
  store being left as it was. Hence, on a table that respects its primary key, deleting
  an existing id twice returns \<open>True\<close> and then \<open>False\<close>.
\<close>

theorem not_found_returns_absent:
  "(\<not> list_ex (has_id i) (users db) \<longrightarrow> approve_user db i = (None, db))
   \<and> (\<not> list_ex (has_id i) (publications db) \<longrightarrow>
        update_publication db i x = (None, db) \<and>
        update_publication_order db i n = (None, db) \<and>
        delete_publication db i = (False, db))
   \<and> (\<not> list_ex (has_id i) (news db) \<longrightarrow>
        get_news_by_id db i = None \<and> update_news db i x = (None, db) \<and>
        delete_news db i = (False, db))
   \<and> (\<not> list_ex (has_id i) (members db) \<longrightarrow>
        update_member db i x = (None, db) \<and> delete_member db i = (False, db))
   \<and> (\<not> list_ex (has_id i) (research_areas db) \<longrightarrow>
        get_research_area_by_id db i = None \<and> update_research_area db i x = (None, db) \<and>
        delete_research_area db i = (False, db))
   \<and> (wf_table (publications db) \<and> list_ex (has_id i) (publications db) \<longrightarrow>
        (\<exists>db'. delete_publication db i = (True, db') \<and> delete_publication db' i = (False, db')))
   \<and> (wf_table (news db) \<and> list_ex (has_id i) (news db) \<longrightarrow>
        (\<exists>db'. delete_news db i = (True, db') \<and> delete_news db' i = (False, db')))
   \<and> (wf_table (members db) \<and> list_ex (has_id i) (members db) \<longrightarrow>
        (\<exists>db'. delete_member db i = (True, db') \<and> delete_member db' i = (False, db')))
   \<and> (wf_table (research_areas db) \<and> list_ex (has_id i) (research_areas db) \<longrightarrow>
        (\<exists>db'. delete_research_area db i = (True, db') \<and>
               delete_research_area db' i = (False, db')))"
proof (intro conjI impI)
  assume "\<not> list_ex (has_id i) (users db)"
  then show "approve_user db i = (None, db)"
    by (simp add: approve_user_def first_by_id_None [symmetric])
next
  assume h: "\<not> list_ex (has_id i) (publications db)"
  then show "update_publication db i x = (None, db)"
    by (simp add: update_publication_def first_by_id_None [symmetric])
  from h show "update_publication_order db i n = (None, db)"
    by (simp add: update_publication_order_def first_by_id_None [symmetric])
  from h show "delete_publication db i = (False, db)"
    by (simp add: delete_publication_def first_by_id_None [symmetric])
next
  assume h: "\<not> list_ex (has_id i) (news db)"
  then show "get_news_by_id db i = None"
    by (simp add: get_news_by_id_def first_by_id_None)
  from h show "update_news db i x = (None, db)"
    by (simp add: update_news_def first_by_id_None [symmetric])
  from h show "delete_news db i = (False, db)"
    by (simp add: delete_news_def first_by_id_None [symmetric])
next
  assume h: "\<not> list_ex (has_id i) (members db)"
  then show "update_member db i x = (None, db)"
    by (simp add: update_member_def first_by_id_None [symmetric])
  from h show "delete_member db i = (False, db)"
    by (simp add: delete_member_def first_by_id_None [symmetric])
next
  assume h: "\<not> list_ex (has_id i) (research_areas db)"
  then show "get_research_area_by_id db i = None"
    by (simp add: get_research_area_by_id_def first_by_id_None)
  from h show "update_research_area db i x = (None, db)"
    by (simp add: update_research_area_def first_by_id_None [symmetric])
  from h show "delete_research_area db i = (False, db)"
    by (simp add: delete_research_area_def first_by_id_None [symmetric])
next
  assume "wf_table (publications db) \<and> list_ex (has_id i) (publications db)"
  then have "first_by_id (publications db) i \<noteq> None"
    and "first_by_id (delete_row (publications db) i) i = None"
    by (simp_all add: delete_row_twice)
  then show "\<exists>db'. delete_publication db i = (True, db') \<and> delete_publication db' i = (False, db')"
    by (auto simp: delete_publication_def)
next
  assume "wf_table (news db) \<and> list_ex (has_id i) (news db)"
  then have "first_by_id (news db) i \<noteq> None"
    and "first_by_id (delete_row (news db) i) i = None"
    by (simp_all add: delete_row_twice)
  then show "\<exists>db'. delete_news db i = (True, db') \<and> delete_news db' i = (False, db')"
    by (auto simp: delete_news_def)
next
  assume "wf_table (members db) \<and> list_ex (has_id i) (members db)"
  then have "first_by_id (members db) i \<noteq> None"
    and "first_by_id (delete_row (members db) i) i = None"
    by (simp_all add: delete_row_twice)
  then show "\<exists>db'. delete_member db i = (True, db') \<and> delete_member db' i = (False, db')"
    by (auto simp: delete_member_def)
next
  assume "wf_table (research_areas db) \<and> list_ex (has_id i) (research_areas db)"
  then have "first_by_id (research_areas db) i \<noteq> None"
    and "first_by_id (delete_row (research_areas db) i) i = None"
    by (simp_all add: delete_row_twice)
  then show "\<exists>db'. delete_research_area db i = (True, db') \<and>
      delete_research_area db' i = (False, db')"
    by (auto simp: delete_research_area_def)
qed

theorem not_found_returns_absent_witness:
  "get_news_by_id one_news_session ''n2'' = None
   \<and> update_news one_news_session ''n2'' [''title'' \<mapsto> VStr ''U''] = (None, one_news_session)
   \<and> delete_news one_news_session ''n2'' = (False, one_news_session)
   \<and> wf_table (news one_news_session) \<and> list_ex (has_id ''n1'') (news one_news_session)
   \<and> (\<exists>db'. delete_news one_news_session ''n1'' = (True, db') \<and>
             delete_news db' ''n1'' = (False, db'))"
proof -
  have a: "\<not> list_ex (has_id ''n2'') (news one_news_session)"
    by (simp add: one_news_session_def has_id_def)
  have b: "wf_table (news one_news_session)"
    by (simp add: one_news_session_def wf_table_def)
  have c: "list_ex (has_id ''n1'') (news one_news_session)"
    by (simp add: one_news_session_def has_id_def)
  from not_found_returns_absent [of "''n2''" one_news_session "[''title'' \<mapsto> VStr ''U'']" 0] a
  have "get_news_by_id one_news_session ''n2'' = None
   \<and> update_news one_news_session ''n2'' [''title'' \<mapsto> VStr ''U''] = (None, one_news_session)
   \<and> delete_news one_news_session ''n2'' = (False, one_news_session)" by blast
  moreover
  from not_found_returns_absent [of "''n1''" one_news_session Map.empty 0] b c
  have "\<exists>db'. delete_news one_news_session ''n1'' = (True, db') \<and>
             delete_news db' ''n1'' = (False, db')" by blast
  ultimately show ?thesis using b c by blast
qed

section \<open>Partial updates (C4)\<close>

text \<open>
  C4. For the four entities with a partial update (publication, news, member, research
  area) and an id that resolves to a row: the update with an input in which no field is
  set returns that row and leaves the store as it was; and for every input the update
  returns the updated row, which is the row a later lookup of the id finds, and in which
  every attribute whose field the input does not set is unchanged. For a publication
  the input field \<open>order\<close> is the attribute \<open>displayOrder\<close>, so \<open>displayOrder\<close> is
  unchanged when the input sets neither.
\<close>

theorem partial_update_keeps_unset_fields:
  "(first_by_id (publications db) i = Some obj \<longrightarrow>
      update_publication db i Map.empty = (Some obj, db) \<and>
      (\<exists>obj' db'. update_publication db i x = (Some obj', db') \<and>
         first_by_id (publications db') i = Some obj' \<and>
         (\<forall>k. x k = None \<and> (k = ''displayOrder'' \<longrightarrow> x ''order'' = None) \<longrightarrow> obj' k = obj k)))
   \<and> (first_by_id (news db) i = Some obj \<longrightarrow>
      update_news db i Map.empty = (Some obj, db) \<and>
      (\<exists>obj' db'. update_news db i x = (Some obj', db') \<and>
         first_by_id (news db') i = Some obj' \<and> (\<forall>k. x k = None \<longrightarrow> obj' k = obj k)))
   \<and> (first_by_id (members db) i = Some obj \<longrightarrow>
      update_member db i Map.empty = (Some obj, db) \<and>
      (\<exists>obj' db'. update_member db i x = (Some obj', db') \<and>
         first_by_id (members db') i = Some obj' \<and> (\<forall>k. x k = None \<longrightarrow> obj' k = obj k)))
   \<and> (first_by_id (research_areas db) i = Some obj \<longrightarrow>
      update_research_area db i Map.empty = (Some obj, db) \<and>
      (\<exists>obj' db'. update_research_area db i x = (Some obj', db') \<and>
         first_by_id (research_areas db') i = Some obj' \<and> (\<forall>k. x k = None \<longrightarrow> obj' k = obj k)))"
proof (intro conjI impI)
  assume f: "first_by_id (publications db) i = Some obj"
  then show "update_publication db i Map.empty = (Some obj, db)"
    by (simp add: update_publication_alt publication_updates_empty write_back_same)
  from f have "has_id i obj" by (simp add: first_by_id_Some)
  then have "has_id i (setattr_items obj (publication_updates x))"
    by (rule publication_updates_keep_id)
  with f have "first_by_id (write_back (publications db) i (setattr_items obj (publication_updates x))) i
      = Some (setattr_items obj (publication_updates x))"
    by (rule first_by_id_write_back)
  with f show "\<exists>obj' db'. update_publication db i x = (Some obj', db') \<and>
         first_by_id (publications db') i = Some obj' \<and>
         (\<forall>k. x k = None \<and> (k = ''displayOrder'' \<longrightarrow> x ''order'' = None) \<longrightarrow> obj' k = obj k)"
    by (simp add: update_publication_alt update_publication_frame)
next
  assume f: "first_by_id (news db) i = Some obj"
  note p = partial_update_found [OF distinct_NewsCreate id_notin_NewsCreate f]
  from f show "update_news db i Map.empty = (Some obj, db)"
    by (simp add: update_news_def p(1) write_back_same)
  from f show "\<exists>obj' db'. update_news db i x = (Some obj', db') \<and>
         first_by_id (news db') i = Some obj' \<and> (\<forall>k. x k = None \<longrightarrow> obj' k = obj k)"
    using p(2) [of x] p(3) [of x] by (simp add: update_news_def Let_def)
next
  assume f: "first_by_id (members db) i = Some obj"
  note p = partial_update_found [OF distinct_MemberUpdate id_notin_MemberUpdate f]
  from f show "update_member db i Map.empty = (Some obj, db)"
    by (simp add: update_member_def p(1) write_back_same)
  from f show "\<exists>obj' db'. update_member db i x = (Some obj', db') \<and>
         first_by_id (members db') i = Some obj' \<and> (\<forall>k. x k = None \<longrightarrow> obj' k = obj k)"
    using p(2) [of x] p(3) [of x] by (simp add: update_member_def Let_def)
next
  assume f: "first_by_id (research_areas db) i = Some obj"
  note p = partial_update_found [OF distinct_ResearchAreaCreate id_notin_ResearchAreaCreate f]
  from f show "update_research_area db i Map.empty = (Some obj, db)"
    by (simp add: update_research_area_def p(1) write_back_same)
  from f show "\<exists>obj' db'. update_research_area db i x = (Some obj', db') \<and>
         first_by_id (research_areas db') i = Some obj' \<and> (\<forall>k. x k = None \<longrightarrow> obj' k = obj k)"
    using p(2) [of x] p(3) [of x] by (simp add: update_research_area_def Let_def)
qed

theorem partial_update_keeps_unset_fields_witness:
  "first_by_id (news one_news_session) ''n1'' =
      Some [''id'' \<mapsto> VStr ''n1'', ''title'' \<mapsto> VStr ''T'']
   \<and> update_news one_news_session ''n1'' Map.empty =
      (Some [''id'' \<mapsto> VStr ''n1'', ''title'' \<mapsto> VStr ''T''], one_news_session)
   \<and> (\<exists>obj' db'. update_news one_news_session ''n1'' [''content'' \<mapsto> VStr ''C''] = (Some obj', db') \<and>
         first_by_id (news db') ''n1'' = Some obj' \<and>
         obj' ''title'' = Some (VStr ''T'') \<and> obj' ''id'' = Some (VStr ''n1''))"
proof -
  let ?obj = "[''id'' \<mapsto> VStr ''n1'', ''title'' \<mapsto> VStr ''T'']"
  let ?x = "[''content'' \<mapsto> VStr ''C'']"
  have f: "first_by_id (news one_news_session) ''n1'' = Some ?obj"
    by (simp add: one_news_session_def first_by_id_def has_id_def)
  from partial_update_keeps_unset_fields [of one_news_session "''n1''" ?obj ?x] f
  have a: "update_news one_news_session ''n1'' Map.empty = (Some ?obj, one_news_session)"
    and "\<exists>obj' db'. update_news one_news_session ''n1'' ?x = (Some obj', db') \<and>
         first_by_id (news db') ''n1'' = Some obj' \<and> (\<forall>k. ?x k = None \<longrightarrow> obj' k = ?obj k)"
    by blast+
  then obtain obj' db' where b: "update_news one_news_session ''n1'' ?x = (Some obj', db')"
    "first_by_id (news db') ''n1'' = Some obj'" and c: "\<forall>k. ?x k = None \<longrightarrow> obj' k = ?obj k"
    by blast
  from c have "obj' ''title'' = ?obj ''title''" "obj' ''id'' = ?obj ''id''" by simp_all
  then have "obj' ''title'' = Some (VStr ''T'')" "obj' ''id'' = Some (VStr ''n1'')" by simp_all
  with f a b show ?thesis by blast
qed

section \<open>Lab info: create or update (C5)\<close>

text \<open>
  C5. \<^verbatim>\<open>create_or_update_lab_info\<close> always returns, the row it returns is the row that
  \<^verbatim>\<open>get_lab_info\<close> finds in the store afterwards, and it is idempotent: a second call with
  the same input, whatever column defaults it is given, returns the same row and leaves
  the store as the first call left it. When the sentinel row exists the call is a
  partial update of it (a supplied field takes the input's value, every other attribute
  keeps its own) and the updated row is the one stored under the sentinel; otherwise it
  appends a row keyed \<open>lab_settings\<close> that carries the supplied fields.
\<close>

theorem create_or_update_lab_info_idempotent:
  "(\<exists>obj db'. create_or_update_lab_info db new x = Inr (obj, db'))
   \<and> (create_or_update_lab_info db new x = Inr (obj, db') \<longrightarrow>
        first_by_id (lab_info db') ''lab_settings'' = Some obj \<and>
        get_lab_info db' = Some obj \<and>
        create_or_update_lab_info db' new' x = Inr (obj, db'))
   \<and> (first_by_id (lab_info db) ''lab_settings'' = Some old \<longrightarrow>
        (\<exists>obj db'. create_or_update_lab_info db new x = Inr (obj, db') \<and>
           first_by_id (lab_info db') ''lab_settings'' = Some obj \<and>
           get_lab_info db' = Some obj \<and>
           lab_info db' = write_back (lab_info db) ''lab_settings'' obj \<and>
           (\<forall>k. obj k = (if k \<in> fst ` set LabInfoCreate
                         then (case x k of None \<Rightarrow> old k | Some v \<Rightarrow> Some v) else old k))))
   \<and> (first_by_id (lab_info db) ''lab_settings'' = None \<longrightarrow>
        (\<exists>obj db'. create_or_update_lab_info db new x = Inr (obj, db') \<and>
           first_by_id (lab_info db') ''lab_settings'' = Some obj \<and>
           get_lab_info db' = Some obj \<and>
           lab_info db' = lab_info db @ [obj] \<and>
           obj ''id'' = Some (VStr ''lab_settings'') \<and>
           (\<forall>k\<in>fst ` set LabInfoCreate. x k \<noteq> None \<longrightarrow> obj k = x k)))"
proof (intro conjI impI)
  show "\<exists>obj db'. create_or_update_lab_info db new x = Inr (obj, db')"
    by (rule create_or_update_total)
next
  assume h: "create_or_update_lab_info db new x = Inr (obj, db')"
  then show f: "first_by_id (lab_info db') ''lab_settings'' = Some obj"
    by (rule create_or_update_result(1))
  then show "get_lab_info db' = Some obj" by (simp add: get_lab_info_def)
  from h show "create_or_update_lab_info db' new' x = Inr (obj, db')"
    by (rule create_or_update_idempotent)
next
  assume o: "first_by_id (lab_info db) ''lab_settings'' = Some old"
  let ?obj = "setattr_items old (dict_exclude_unset LabInfoCreate x)"
  let ?db' = "db\<lparr>lab_info := write_back (lab_info db) ''lab_settings'' ?obj\<rparr>"
  from o have r: "create_or_update_lab_info db new x = Inr (?obj, ?db')"
    by (rule create_or_update_found)
  from create_or_update_result(1) [OF r]
  have f: "first_by_id (lab_info ?db') ''lab_settings'' = Some ?obj" .
  then have g: "get_lab_info ?db' = Some ?obj" by (simp add: get_lab_info_def)
  have w: "lab_info ?db' = write_back (lab_info db) ''lab_settings'' ?obj" by simp
  have k: "\<forall>k. ?obj k = (if k \<in> fst ` set LabInfoCreate
                         then (case x k of None \<Rightarrow> old k | Some v \<Rightarrow> Some v) else old k)"
    by (simp add: setattr_items_schema distinct_LabInfoCreate)
  from r f g w k
  show "\<exists>obj db'. create_or_update_lab_info db new x = Inr (obj, db') \<and>
           first_by_id (lab_info db') ''lab_settings'' = Some obj \<and>
           get_lab_info db' = Some obj \<and>
           lab_info db' = write_back (lab_info db) ''lab_settings'' obj \<and>
           (\<forall>k. obj k = (if k \<in> fst ` set LabInfoCreate
                         then (case x k of None \<Rightarrow> old k | Some v \<Rightarrow> Some v) else old k))"
    by blast
next
  assume n: "first_by_id (lab_info db) ''lab_settings'' = None"
  let ?obj = "construct new ((''id'', VStr ''lab_settings'') # dict_exclude_unset LabInfoCreate x)"
  let ?db' = "db\<lparr>lab_info := lab_info db @ [?obj]\<rparr>"
  from n have r: "create_or_update_lab_info db new x = Inr (?obj, ?db')"
    by (rule create_or_update_missing)
  from create_or_update_result(1) [OF r]
  have f: "first_by_id (lab_info ?db') ''lab_settings'' = Some ?obj" .
  then have g: "get_lab_info ?db' = Some ?obj" by (simp add: get_lab_info_def)
  have a: "lab_info ?db' = lab_info db @ [?obj]" by simp
  have i: "?obj ''id'' = Some (VStr ''lab_settings'')"
    by (simp add: construct_def lab_payload_id del: setattr_items.simps)
  have v: "\<forall>k\<in>fst ` set LabInfoCreate. x k \<noteq> None \<longrightarrow> ?obj k = x k"
    by (auto simp: construct_def setattr_items_schema distinct_LabInfoCreate)
  from r f g a i v
  show "\<exists>obj db'. create_or_update_lab_info db new x = Inr (obj, db') \<and>
           first_by_id (lab_info db') ''lab_settings'' = Some obj \<and>
           get_lab_info db' = Some obj \<and>
           lab_info db' = lab_info db @ [obj] \<and>
           obj ''id'' = Some (VStr ''lab_settings'') \<and>
           (\<forall>k\<in>fst ` set LabInfoCreate. x k \<noteq> None \<longrightarrow> obj k = x k)"
    by blast
qed

theorem create_or_update_lab_info_idempotent_witness:
  "\<exists>obj db' obj2 db2.
     first_by_id (lab_info empty_session) ''lab_settings'' = None
     \<and> create_or_update_lab_info empty_session [''createdAt'' \<mapsto> VDateTime 1]
         [''labName'' \<mapsto> VStr ''GI Lab''] = Inr (obj, db')
     \<and> create_or_update_lab_info db' [''createdAt'' \<mapsto> VDateTime 2]
         [''labName'' \<mapsto> VStr ''GI Lab''] = Inr (obj, db')
     \<and> get_lab_info db' = Some obj
     \<and> lab_info db' = [obj]
     \<and> obj ''id'' = Some (VStr ''lab_settings'')
     \<and> obj ''labName'' = Some (VStr ''GI Lab'')
     \<and> get_lab_info one_lab_session = Some old_lab_row
     \<and> create_or_update_lab_info one_lab_session Map.empty
         [''labName'' \<mapsto> VStr ''New Lab''] = Inr (obj2, db2)
     \<and> get_lab_info db2 = Some obj2
     \<and> old_lab_row ''labName'' = Some (VStr ''Old Lab'')
     \<and> obj2 ''labName'' = Some (VStr ''New Lab'')
     \<and> obj2 ''address'' = Some (VStr ''Main Street 1'')
     \<and> obj2 ''id'' = Some (VStr ''lab_settings'')"
proof -
  let ?new = "[''createdAt'' \<mapsto> VDateTime 1]"
  let ?new' = "[''createdAt'' \<mapsto> VDateTime 2]"
  let ?x = "[''labName'' \<mapsto> VStr ''GI Lab'']"
  let ?y = "[''labName'' \<mapsto> VStr ''New Lab'']"
  have n: "first_by_id (lab_info empty_session) ''lab_settings'' = None"
    by (simp add: empty_session_def first_by_id_def)
  have l: "''labName'' \<in> fst ` set LabInfoCreate" "''address'' \<in> fst ` set LabInfoCreate"
    "''id'' \<notin> fst ` set LabInfoCreate"
    by (simp_all add: LabInfoCreate_def)
  from create_or_update_lab_info_idempotent [of empty_session ?new ?x Map.empty empty_session ?new' Map.empty] n
  obtain obj db' where r: "create_or_update_lab_info empty_session ?new ?x = Inr (obj, db')"
    and t: "lab_info db' = lab_info empty_session @ [obj]"
    and i: "obj ''id'' = Some (VStr ''lab_settings'')"
    and v: "\<forall>k\<in>fst ` set LabInfoCreate. ?x k \<noteq> None \<longrightarrow> obj k = ?x k"
    by blast
  from create_or_update_lab_info_idempotent [of empty_session ?new ?x obj db' ?new' Map.empty] r
  have g: "get_lab_info db' = Some obj"
    and r': "create_or_update_lab_info db' ?new' ?x = Inr (obj, db')" by blast+
  from v l have ln: "obj ''labName'' = Some (VStr ''GI Lab'')" by auto
  from t have t': "lab_info db' = [obj]" by (simp add: empty_session_def)
  have o: "first_by_id (lab_info one_lab_session) ''lab_settings'' = Some old_lab_row"
    by (simp add: one_lab_session_def old_lab_row_def first_by_id_def has_id_def)
  then have go: "get_lab_info one_lab_session = Some old_lab_row"
    by (simp add: get_lab_info_def)
  from create_or_update_lab_info_idempotent
    [of one_lab_session Map.empty ?y Map.empty empty_session Map.empty old_lab_row] o
  obtain obj2 db2 where
    r2: "create_or_update_lab_info one_lab_session Map.empty ?y = Inr (obj2, db2)"
    and g2: "get_lab_info db2 = Some obj2"
    and k2: "\<forall>k. obj2 k = (if k \<in> fst ` set LabInfoCreate
                then (case ?y k of None \<Rightarrow> old_lab_row k | Some v \<Rightarrow> Some v)
                else old_lab_row k)"
    by blast
  from k2 l have "obj2 ''labName'' = Some (VStr ''New Lab'')"
    "obj2 ''address'' = old_lab_row ''address''" "obj2 ''id'' = old_lab_row ''id''"
    by simp_all
  then have p2: "obj2 ''labName'' = Some (VStr ''New Lab'')"
    "obj2 ''address'' = Some (VStr ''Main Street 1'')"
    "obj2 ''id'' = Some (VStr ''lab_settings'')"
    by (simp_all add: old_lab_row_def)
  have ol: "old_lab_row ''labName'' = Some (VStr ''Old Lab'')" by (simp add: old_lab_row_def)
  from n r r' g t' i ln go r2 g2 ol p2 show ?thesis by blast
qed

section \<open>Lab info: the singleton invariant (C6)\<close>

text \<open>
  C6. From a store whose lab-info table has at most one row, keyed by the sentinel
  \<open>lab_settings\<close>, every sequence of \<^verbatim>\<open>get_lab_info\<close> and \<^verbatim>\<open>create_or_update_lab_info\<close>
  calls leads to such a store again; \<^verbatim>\<open>get_lab_info\<close> returns the row if there is one;
  and after one create-or-update call, and still after a second one with the same
  input, the table holds exactly one and the same row, whose id is the sentinel.
\<close>

theorem lab_info_singleton_invariant:
  "lab_inv db \<longrightarrow>
     lab_inv (lab_run db cs)
     \<and> ((get_lab_info db = None \<and> lab_info db = []) \<or>
         (\<exists>obj. get_lab_info db = Some obj \<and> lab_info db = [obj]))
     \<and> (\<exists>obj. lab_info (lab_run db [CreateOrUpdateLabInfo new x]) = [obj] \<and>
          lab_info (lab_run db [CreateOrUpdateLabInfo new x, CreateOrUpdateLabInfo new' x]) = [obj] \<and>
          obj ''id'' = Some (VStr ''lab_settings''))"
proof (intro impI conjI)
  assume i: "lab_inv db"
  then show "lab_inv (lab_run db cs)" by (rule lab_inv_run)
  from lab_inv_cases [OF i]
  show "(get_lab_info db = None \<and> lab_info db = []) \<or>
         (\<exists>obj. get_lab_info db = Some obj \<and> lab_info db = [obj])"
    by (auto simp: get_lab_info_def)
  obtain obj db' where r: "create_or_update_lab_info db new x = Inr (obj, db')"
    using create_or_update_total by blast
  from create_or_update_idempotent [OF r]
  have r': "create_or_update_lab_info db' new' x = Inr (obj, db')" .
  from create_or_update_singleton [OF i r]
  have "lab_info db' = [obj]" and "obj ''id'' = Some (VStr ''lab_settings'')"
    by (simp_all add: has_id_def)
  with r r' show "\<exists>obj. lab_info (lab_run db [CreateOrUpdateLabInfo new x]) = [obj] \<and>
          lab_info (lab_run db [CreateOrUpdateLabInfo new x, CreateOrUpdateLabInfo new' x]) = [obj] \<and>
          obj ''id'' = Some (VStr ''lab_settings'')"
    by simp
qed

theorem lab_info_singleton_invariant_witness:
  "lab_inv empty_session
   \<and> lab_inv (lab_run empty_session
        [GetLabInfo, CreateOrUpdateLabInfo Map.empty [''labName'' \<mapsto> VStr ''A''], GetLabInfo,
         CreateOrUpdateLabInfo Map.empty [''labName'' \<mapsto> VStr ''B'']])
   \<and> get_lab_info empty_session = None
   \<and> (\<exists>obj. lab_info (lab_run empty_session
               [CreateOrUpdateLabInfo Map.empty [''labName'' \<mapsto> VStr ''A'']]) = [obj] \<and>
          lab_info (lab_run empty_session
               [CreateOrUpdateLabInfo Map.empty [''labName'' \<mapsto> VStr ''A''],
                CreateOrUpdateLabInfo Map.empty [''labName'' \<mapsto> VStr ''A'']]) = [obj] \<and>
          obj ''id'' = Some (VStr ''lab_settings''))"
proof -
  have i: "lab_inv empty_session" by (simp add: lab_inv_def empty_session_def)
  have g: "get_lab_info empty_session = None"
    by (simp add: get_lab_info_def first_by_id_def empty_session_def)
  from lab_info_singleton_invariant [of empty_session
      "[GetLabInfo, CreateOrUpdateLabInfo Map.empty [''labName'' \<mapsto> VStr ''A''], GetLabInfo,
         CreateOrUpdateLabInfo Map.empty [''labName'' \<mapsto> VStr ''B'']]"
      Map.empty "[''labName'' \<mapsto> VStr ''A'']" Map.empty] i g
  show ?thesis by blast
qed

section \<open>Publication creation (C1)\<close>

text \<open>
  C1. When \<^verbatim>\<open>create_publication\<close> returns, the returned publication is the row appended
  to the publications table, and its \<open>displayOrder\<close> is the input's \<open>order\<close> field if
  that field is set and 0 otherwise; the authors table has grown by one row per entry
  of the input list, in the list's order, and the row at zero-based position \<open>i\<close> has
  as \<open>displayOrder\<close> the entry's own \<open>order\<close> field if set and \<open>i\<close> otherwise, and refers
  to the new publication. The call does return when the generated ids are fresh and
  pairwise distinct. The example of the spec (order 2; authors A, and B with order 5)
  is the witness.
\<close>

theorem create_publication_display_orders:
  "(create_publication db np na pub aid xs = Inr (p, db') \<longrightarrow>
      p ''displayOrder'' = Some (case pub ''order'' of Some v \<Rightarrow> v | None \<Rightarrow> VInt 0)
      \<and> publications db' = publications db @ [p]
      \<and> (\<exists>rows. authors db' = authors db @ rows \<and> length rows = length xs \<and>
           (\<forall>i<length xs.
              (rows ! i) ''displayOrder'' =
                 Some (case (xs ! i) ''order'' of Some v \<Rightarrow> v | None \<Rightarrow> VInt (int i)) \<and>
              (rows ! i) ''publicationId'' = p ''id'' \<and>
              ((xs ! i) ''name'' \<noteq> None \<longrightarrow> (rows ! i) ''name'' = (xs ! i) ''name''))))
   \<and> (np ''id'' = Some (VStr pid) \<and> \<not> list_ex (has_id pid) (publications db) \<and>
       (\<forall>i<length xs. \<exists>j. na i ''id'' = Some (VStr j) \<and> \<not> list_ex (has_id j) (authors db)) \<and>
       inj_on (\<lambda>i. na i ''id'') {..<length xs} \<longrightarrow>
        (\<exists>obj db'. create_publication db np na pub aid xs = Inr (obj, db')))"
proof (intro conjI impI)
  assume h: "create_publication db np na pub aid xs = Inr (p, db')"
  note r = create_publication_Inr [OF h]
  show "p ''displayOrder'' = Some (case pub ''order'' of Some v \<Rightarrow> v | None \<Rightarrow> VInt 0)"
    unfolding r(1) by (simp add: publication_object_apply)
  show "publications db' = publications db @ [p]" by (rule r(2))
  from r(4) have c: "Some (column p ''id'') = p ''id''" by (auto simp: column_def)
  let ?rows = "author_rows na (column p ''id'') 0 xs"
  have "\<forall>i<length xs.
              (?rows ! i) ''displayOrder'' =
                 Some (case (xs ! i) ''order'' of Some v \<Rightarrow> v | None \<Rightarrow> VInt (int i)) \<and>
              (?rows ! i) ''publicationId'' = p ''id'' \<and>
              ((xs ! i) ''name'' \<noteq> None \<longrightarrow> (?rows ! i) ''name'' = (xs ! i) ''name'')"
    using c by (auto simp: author_rows_nth author_of_entry_apply)
  with r(3) show "\<exists>rows. authors db' = authors db @ rows \<and> length rows = length xs \<and>
           (\<forall>i<length xs.
              (rows ! i) ''displayOrder'' =
                 Some (case (xs ! i) ''order'' of Some v \<Rightarrow> v | None \<Rightarrow> VInt (int i)) \<and>
              (rows ! i) ''publicationId'' = p ''id'' \<and>
              ((xs ! i) ''name'' \<noteq> None \<longrightarrow> (rows ! i) ''name'' = (xs ! i) ''name''))"
    using length_author_rows [of na "column p ''id''" 0 xs] by blast
next
  assume "np ''id'' = Some (VStr pid) \<and> \<not> list_ex (has_id pid) (publications db) \<and>
       (\<forall>i<length xs. \<exists>j. na i ''id'' = Some (VStr j) \<and> \<not> list_ex (has_id j) (authors db)) \<and>
       inj_on (\<lambda>i. na i ''id'') {..<length xs}"
  then have "np ''id'' = Some (VStr pid)" "\<not> list_ex (has_id pid) (publications db)"
    "\<forall>i<length xs. \<exists>j. na i ''id'' = Some (VStr j) \<and> \<not> list_ex (has_id j) (authors db)"
    "inj_on (\<lambda>i. na i ''id'') {..<length xs}"
    by blast+
  then show "\<exists>obj db'. create_publication db np na pub aid xs = Inr (obj, db')"
    by (rule create_publication_succeeds)
qed

theorem create_publication_display_orders_witness:
  "\<exists>p db' a b.
     create_publication empty_session [''id'' \<mapsto> VStr ''p1''] two_author_ids
       [''order'' \<mapsto> VInt 2] ''u1''
       [[''name'' \<mapsto> VStr ''A''], [''name'' \<mapsto> VStr ''B'', ''order'' \<mapsto> VInt 5]] = Inr (p, db')
     \<and> p ''displayOrder'' = Some (VInt 2)
     \<and> publications db' = [p]
     \<and> authors db' = [a, b]
     \<and> a ''name'' = Some (VStr ''A'') \<and> a ''displayOrder'' = Some (VInt 0)
     \<and> b ''name'' = Some (VStr ''B'') \<and> b ''displayOrder'' = Some (VInt 5)
     \<and> a ''publicationId'' = Some (VStr ''p1'') \<and> b ''publicationId'' = Some (VStr ''p1'')"
proof -
  let ?np = "[''id'' \<mapsto> VStr ''p1'']"
  let ?pub = "[''order'' \<mapsto> VInt 2]"
  let ?xs = "[[''name'' \<mapsto> VStr ''A''], [''name'' \<mapsto> VStr ''B'', ''order'' \<mapsto> VInt 5]]"
  note t = create_publication_display_orders [of empty_session ?np two_author_ids ?pub "''u1''" ?xs]
  have h1: "?np ''id'' = Some (VStr ''p1'')" by simp
  have h2: "\<not> list_ex (has_id ''p1'') (publications empty_session)"
    by (simp add: empty_session_def)
  have h3: "\<forall>i<length ?xs. \<exists>j. two_author_ids i ''id'' = Some (VStr j) \<and>
      \<not> list_ex (has_id j) (authors empty_session)"
    by (simp add: two_author_ids_def empty_session_def)
  have h4: "inj_on (\<lambda>i. two_author_ids i ''id'') {..<length ?xs}"
    by (auto simp: inj_on_def two_author_ids_def less_Suc_eq split: if_splits)
  from t [of _ _ "''p1''"] h1 h2 h3 h4
  obtain p db' where r: "create_publication empty_session ?np two_author_ids ?pub ''u1'' ?xs = Inr (p, db')"
    by blast
  from t [of p db' "''p1''"] r obtain rows where
    p: "p ''displayOrder'' = Some (case ?pub ''order'' of Some v \<Rightarrow> v | None \<Rightarrow> VInt 0)"
    and pt: "publications db' = publications empty_session @ [p]"
    and at: "authors db' = authors empty_session @ rows" and len: "length rows = length ?xs"
    and rows: "\<forall>i<length ?xs.
              (rows ! i) ''displayOrder'' =
                 Some (case (?xs ! i) ''order'' of Some v \<Rightarrow> v | None \<Rightarrow> VInt (int i)) \<and>
              (rows ! i) ''publicationId'' = p ''id'' \<and>
              ((?xs ! i) ''name'' \<noteq> None \<longrightarrow> (rows ! i) ''name'' = (?xs ! i) ''name'')"
    by blast
  from len obtain a b where ab: "rows = [a, b]"
    by (cases rows; cases "tl rows"; cases "tl (tl rows)") auto
  have pid: "p ''id'' = Some (VStr ''p1'')"
    using create_publication_Inr(1) [OF r] id_notin_PublicationCreate
    by (simp add: publication_object_apply)
  from rows [rule_format, of 0] ab pid
  have a: "a ''displayOrder'' = Some (VInt 0)" "a ''publicationId'' = Some (VStr ''p1'')"
    "a ''name'' = Some (VStr ''A'')" by simp_all
  from rows [rule_format, of 1] ab pid
  have b: "b ''displayOrder'' = Some (VInt 5)" "b ''publicationId'' = Some (VStr ''p1'')"
    "b ''name'' = Some (VStr ''B'')" by simp_all
  from p have p2: "p ''displayOrder'' = Some (VInt 2)" by simp
  from pt at ab have "publications db' = [p]" "authors db' = [a, b]"
    by (simp_all add: empty_session_def)
  with r p2 a b show ?thesis by blast
qed

section \<open>Standalone author creation (C9)\<close>

text \<open>
  C9. \<^verbatim>\<open>create_author\<close> ignores the \<open>order\<close> field of its input: two inputs that differ
  only there give the same result. When it returns, the returned row is the row
  appended to the authors table and carries the input's name, its homepage and the
  publication reference; every other attribute, \<open>displayOrder\<close> among them, is the column
  default. The call returns when the name is set and the generated id is fresh. The
  author loop of \<^verbatim>\<open>create_publication\<close>, in contrast, stores the entry's \<open>order\<close> as
  \<open>displayOrder\<close>.
\<close>

theorem create_author_ignores_order:
  "create_author db new (author(''order'' := o1)) pid = create_author db new (author(''order'' := o2)) pid
   \<and> (create_author db new author pid = Inr (a, db') \<longrightarrow>
        authors db' = authors db @ [a] \<and>
        a ''displayOrder'' = new ''displayOrder'' \<and>
        a ''publicationId'' = Some (VStr pid) \<and>
        a ''name'' = author ''name'' \<and>
        (\<forall>k. k \<notin> {''name'', ''homepage'', ''publicationId''} \<longrightarrow> a k = new k))
   \<and> (author ''name'' = Some n \<and> new ''id'' = Some (VStr i) \<and> \<not> list_ex (has_id i) (authors db) \<longrightarrow>
        (\<exists>a db'. create_author db new author pid = Inr (a, db')))
   \<and> author_of_entry new (VStr pid) idx author ''displayOrder'' =
        Some (case author ''order'' of Some v \<Rightarrow> v | None \<Rightarrow> VInt (int idx))"
proof (intro conjI impI)
  have e: "getattr AuthorCreate (author(''order'' := o1)) ''name'' =
           getattr AuthorCreate (author(''order'' := o2)) ''name''"
    "getattr AuthorCreate (author(''order'' := o1)) ''homepage'' =
           getattr AuthorCreate (author(''order'' := o2)) ''homepage''"
    by (simp_all add: getattr_def)
  show "create_author db new (author(''order'' := o1)) pid =
        create_author db new (author(''order'' := o2)) pid"
    unfolding create_author_def e ..
next
  assume h: "create_author db new author pid = Inr (a, db')"
  from create_author_Inr(1) [OF h] show "authors db' = authors db @ [a]" .
  from create_author_Inr(2) [OF h] obtain name homepage where
    n: "getattr AuthorCreate author ''name'' = Inr name"
    and a: "a = new(''name'' \<mapsto> name, ''homepage'' \<mapsto> homepage, ''publicationId'' \<mapsto> VStr pid)"
    by blast
  from a show "a ''displayOrder'' = new ''displayOrder''" by simp
  from a show "a ''publicationId'' = Some (VStr pid)" by simp
  from n have "author ''name'' = Some name"
    by (auto simp: getattr_def AuthorCreate_def split: option.splits)
  with a show "a ''name'' = author ''name''" by simp
  from a show "\<forall>k. k \<notin> {''name'', ''homepage'', ''publicationId''} \<longrightarrow> a k = new k" by simp
next
  assume "author ''name'' = Some n \<and> new ''id'' = Some (VStr i) \<and>
      \<not> list_ex (has_id i) (authors db)"
  then show "\<exists>a db'. create_author db new author pid = Inr (a, db')"
    by (simp add: create_author_def getattr_def AuthorCreate_def Let_def insert_row_def
        construct_def setattr_def split: option.splits)
next
  show "author_of_entry new (VStr pid) idx author ''displayOrder'' =
        Some (case author ''order'' of Some v \<Rightarrow> v | None \<Rightarrow> VInt (int idx))"
    by (simp add: author_of_entry_apply)
qed

theorem create_author_ignores_order_witness:
  "\<exists>a db'.
     create_author empty_session [''id'' \<mapsto> VStr ''a9'', ''displayOrder'' \<mapsto> VInt 0]
       [''name'' \<mapsto> VStr ''B'', ''order'' \<mapsto> VInt 5] ''p1'' = Inr (a, db')
     \<and> create_author empty_session [''id'' \<mapsto> VStr ''a9'', ''displayOrder'' \<mapsto> VInt 0]
       [''name'' \<mapsto> VStr ''B'', ''order'' \<mapsto> VInt 7] ''p1'' = Inr (a, db')
     \<and> authors db' = [a]
     \<and> a ''displayOrder'' = Some (VInt 0)
     \<and> a ''name'' = Some (VStr ''B'')
     \<and> a ''order'' = None
     \<and> author_of_entry [''id'' \<mapsto> VStr ''a9'', ''displayOrder'' \<mapsto> VInt 0] (VStr ''p1'') 0
          [''name'' \<mapsto> VStr ''B'', ''order'' \<mapsto> VInt 5] ''displayOrder'' = Some (VInt 5)"
proof -
  let ?new = "[''id'' \<mapsto> VStr ''a9'', ''displayOrder'' \<mapsto> VInt 0]"
  let ?au = "[''name'' \<mapsto> VStr ''B'', ''order'' \<mapsto> VInt 5]"
  note t = create_author_ignores_order [of empty_session ?new ?au "Some (VInt 5)" "''p1''"
      "Some (VInt 7)" _ _ "VStr ''B''" "''a9''" 0]
  have u: "?au(''order'' := Some (VInt 5)) = ?au"
    "?au(''order'' := Some (VInt 7)) = [''name'' \<mapsto> VStr ''B'', ''order'' \<mapsto> VInt 7]"
    by (auto simp: fun_eq_iff)
  have h: "?au ''name'' = Some (VStr ''B'')" "?new ''id'' = Some (VStr ''a9'')"
    "\<not> list_ex (has_id ''a9'') (authors empty_session)"
    by (simp_all add: empty_session_def)
  from t h obtain a db' where r: "create_author empty_session ?new ?au ''p1'' = Inr (a, db')"
    by blast
  from t [of a db'] r have
    "create_author empty_session ?new (?au(''order'' := Some (VInt 5))) ''p1'' =
     create_author empty_session ?new (?au(''order'' := Some (VInt 7))) ''p1''"
    and p: "authors db' = authors empty_session @ [a]" "a ''displayOrder'' = ?new ''displayOrder''"
      "a ''name'' = ?au ''name''"
      "\<forall>k. k \<notin> {''name'', ''homepage'', ''publicationId''} \<longrightarrow> a k = ?new k"
    and q: "author_of_entry ?new (VStr ''p1'') 0 ?au ''displayOrder'' =
        Some (case ?au ''order'' of Some v \<Rightarrow> v | None \<Rightarrow> VInt (int 0))"
    by blast+
  with r have r2: "create_author empty_session ?new [''name'' \<mapsto> VStr ''B'', ''order'' \<mapsto> VInt 7] ''p1''
      = Inr (a, db')"
    unfolding u by simp
  from p(4) have "a ''order'' = ?new ''order''" by simp
  then have o: "a ''order'' = None" by simp
  from p have "authors db' = [a]" "a ''displayOrder'' = Some (VInt 0)" "a ''name'' = Some (VStr ''B'')"
    by (simp_all add: empty_session_def)
  moreover from q have "author_of_entry ?new (VStr ''p1'') 0 ?au ''displayOrder'' = Some (VInt 5)"
    by simp
  ultimately show ?thesis using r r2 o by blast
qed

section \<open>News listings (C8)\<close>

text \<open>
  C8. \<^verbatim>\<open>get_all_news\<close> returns all news rows, each once, in descending order of
  \<open>publishedAt\<close>, and \<^verbatim>\<open>get_recent_news\<close> with a limit returns the first \<open>limit\<close> rows of
  that same list. In particular, over three news rows with pairwise different
  \<open>publishedAt\<close> the limit 2 returns exactly the two most recent rows, the newest first.
\<close>

theorem news_newest_first:
  "sorted_wrt (\<lambda>a b. publishedAt a \<ge> publishedAt b) (get_all_news db)
   \<and> mset (get_all_news db) = mset (news db)
   \<and> get_recent_news db limit = take limit (get_all_news db)
   \<and> (length (news db) = 3 \<and> distinct (map publishedAt (news db)) \<longrightarrow>
        (\<exists>a b c. get_recent_news db 2 = [a, b] \<and> mset (news db) = {#a, b, c#} \<and>
           publishedAt a > publishedAt b \<and> publishedAt b > publishedAt c))"
proof (intro conjI impI)
  show s: "sorted_wrt (\<lambda>a b. publishedAt a \<ge> publishedAt b) (get_all_news db)"
    unfolding get_all_news_def by (rule sorted_wrt_order_by_desc)
  show m: "mset (get_all_news db) = mset (news db)"
    by (simp add: get_all_news_def mset_order_by_desc)
  show "get_recent_news db limit = take limit (get_all_news db)"
    by (simp add: get_recent_news_def get_all_news_def)
  assume "length (news db) = 3 \<and> distinct (map publishedAt (news db))"
  then have "\<exists>a b c. take 2 (get_all_news db) = [a, b] \<and> mset (news db) = {#a, b, c#} \<and>
           publishedAt a > publishedAt b \<and> publishedAt b > publishedAt c"
    using s m by (intro top_two_of_three) simp_all
  then show "\<exists>a b c. get_recent_news db 2 = [a, b] \<and> mset (news db) = {#a, b, c#} \<and>
           publishedAt a > publishedAt b \<and> publishedAt b > publishedAt c"
    by (simp add: get_recent_news_def get_all_news_def)
qed

theorem news_newest_first_witness:
  "length (news three_news_session) = 3
   \<and> distinct (map publishedAt (news three_news_session))
   \<and> (\<exists>a b c. get_recent_news three_news_session 2 = [a, b] \<and>
         mset (news three_news_session) = {#a, b, c#} \<and>
         publishedAt a > publishedAt b \<and> publishedAt b > publishedAt c)
   \<and> get_recent_news three_news_session 2 =
        [[''id'' \<mapsto> VStr ''n2'', ''publishedAt'' \<mapsto> VDateTime 30],
         [''id'' \<mapsto> VStr ''n1'', ''publishedAt'' \<mapsto> VDateTime 20]]"
proof -
  have l: "length (news three_news_session) = 3"
    by (simp add: three_news_session_def)
  have d: "distinct (map publishedAt (news three_news_session))"
    by (simp add: three_news_session_def publishedAt_def)
  have v: "get_recent_news three_news_session 2 =
        [[''id'' \<mapsto> VStr ''n2'', ''publishedAt'' \<mapsto> VDateTime 30],
         [''id'' \<mapsto> VStr ''n1'', ''publishedAt'' \<mapsto> VDateTime 20]]"
    by (simp add: get_recent_news_def three_news_session_def empty_session_def order_by_desc_def
        publishedAt_def)
  from news_newest_first [of three_news_session 2] l d v show ?thesis by blast
qed

section \<open>Member grouping by degree level (C2)\<close>

text \<open>
  C2. \<^verbatim>\<open>get_members_by_degree_level\<close> maps each of the five bucket names to the members
  that the spec's precedence rules (\<open>spec_bucket\<close>: alumni status first, then an exact
  bucket name, then phd, ph.d or doctor, then the prefix master, then the prefix
  bachelor, else other) send to that bucket, in the order of the name-ascending fetch;
  every member is sent to one of the five buckets; alumni status wins over any degree;
  a member without a degree and without alumni status goes to other. In the spec's
  example Amy goes to phd, Bo to alumni and Cy to other.
\<close>

theorem members_grouped_by_precedence:
  "get_members_by_degree_level db =
     map (\<lambda>k. (k, filter (\<lambda>m. spec_bucket m = k) (get_members db))) bucket_keys
   \<and> sorted (map member_name (get_members db))
   \<and> (\<forall>k\<in>set bucket_keys.
         sorted (map member_name (filter (\<lambda>m. spec_bucket m = k) (get_members db))))
   \<and> spec_bucket m \<in> set bucket_keys
   \<and> (lower (or_empty (column m ''status'')) = ''alumni'' \<longrightarrow> spec_bucket m = ''alumni'')
   \<and> (lower (or_empty (column m ''status'')) \<noteq> ''alumni'' \<and> or_empty (column m ''degree'') = []
        \<longrightarrow> spec_bucket m = ''other'')
   \<and> spec_bucket amy = ''phd'' \<and> spec_bucket bo = ''alumni'' \<and> spec_bucket cy = ''other''"
proof (intro conjI impI ballI)
  show "get_members_by_degree_level db =
     map (\<lambda>k. (k, filter (\<lambda>m. spec_bucket m = k) (get_members db))) bucket_keys"
    by (rule get_members_by_degree_level_spec)
  show s: "sorted (map member_name (get_members db))" by (rule sorted_get_members)
  show "sorted (map member_name (filter (\<lambda>m. spec_bucket m = k) (get_members db)))" for k
    using s by (rule sorted_filter)
  show "spec_bucket m \<in> set bucket_keys" by (rule spec_bucket_in_keys)
  show "spec_bucket m = ''alumni''" if "lower (or_empty (column m ''status'')) = ''alumni''"
    using that by (simp add: spec_bucket_def)
  show "spec_bucket m = ''other''"
    if "lower (or_empty (column m ''status'')) \<noteq> ''alumni'' \<and> or_empty (column m ''degree'') = []"
    using that by (simp add: spec_bucket_no_degree)
  show "spec_bucket amy = ''phd''" "spec_bucket bo = ''alumni''" "spec_bucket cy = ''other''"
    by (rule spec_bucket_examples)+
qed

theorem members_grouped_by_precedence_witness:
  "get_members three_member_session = [amy, bo, cy]
   \<and> get_members_by_degree_level three_member_session =
       [(''masters'', []), (''bachelors'', []), (''phd'', [amy]), (''other'', [cy]),
        (''alumni'', [bo])]
   \<and> lower (or_empty (column bo ''status'')) = ''alumni''
   \<and> lower (or_empty (column bo ''degree'')) = ''master of science''"
proof -
  have g: "get_members three_member_session = [amy, bo, cy]"
    by (rule get_members_example)
  have l: "lower (or_empty (column bo ''status'')) = ''alumni''"
    "lower (or_empty (column bo ''degree'')) = ''master of science''"
    by code_simp+
  from members_grouped_by_precedence [of three_member_session bo]
  have "get_members_by_degree_level three_member_session =
     map (\<lambda>k. (k, filter (\<lambda>m. spec_bucket m = k) (get_members three_member_session))) bucket_keys"
    and e: "spec_bucket amy = ''phd''" "spec_bucket bo = ''alumni''" "spec_bucket cy = ''other''"
    by blast+
  then have "get_members_by_degree_level three_member_session =
       [(''masters'', []), (''bachelors'', []), (''phd'', [amy]), (''other'', [cy]),
        (''alumni'', [bo])]"
    by (simp add: g bucket_keys_def)
  with g l show ?thesis by blast
qed

section \<open>The shape of the grouped result (C10)\<close>

text \<open>
  C10. For every store the result of \<^verbatim>\<open>get_members_by_degree_level\<close> has exactly the
  keys masters, bachelors, phd, other and alumni, once each and in this order; the
  concatenation of its five lists is a permutation of the member table, so that every
  member is in exactly one bucket; and on a store without members all five lists are
  empty.
\<close>

theorem grouped_has_five_buckets:
  "map fst (get_members_by_degree_level db) =
     [''masters'', ''bachelors'', ''phd'', ''other'', ''alumni'']
   \<and> mset (concat (map snd (get_members_by_degree_level db))) = mset (members db)
   \<and> (members db = [] \<longrightarrow>
        get_members_by_degree_level db =
          [(''masters'', []), (''bachelors'', []), (''phd'', []), (''other'', []), (''alumni'', [])])"
proof (intro conjI impI)
  show "map fst (get_members_by_degree_level db) =
     [''masters'', ''bachelors'', ''phd'', ''other'', ''alumni'']"
    by (simp add: get_members_by_degree_level_spec bucket_keys_def)
  have "mset (concat (map snd (get_members_by_degree_level db))) = mset (get_members db)"
    using mset_buckets [of "get_members db"]
    by (simp add: get_members_by_degree_level_spec comp_def)
  then show "mset (concat (map snd (get_members_by_degree_level db))) = mset (members db)"
    by (simp add: mset_get_members)
  assume "members db = []"
  then show "get_members_by_degree_level db =
          [(''masters'', []), (''bachelors'', []), (''phd'', []), (''other'', []), (''alumni'', [])]"
    by (simp add: get_members_by_degree_level_def order_by_asc_def)
qed

theorem grouped_has_five_buckets_witness:
  "members empty_session = []
   \<and> get_members_by_degree_level empty_session =
       [(''masters'', []), (''bachelors'', []), (''phd'', []), (''other'', []), (''alumni'', [])]
   \<and> mset (concat (map snd (get_members_by_degree_level three_member_session))) = {#cy, amy, bo#}"
proof -
  have e: "members empty_session = []" by (simp add: empty_session_def)
  have m: "mset (members three_member_session) = {#cy, amy, bo#}"
    by (simp add: three_member_session_def)
  from grouped_has_five_buckets [of empty_session] e
  have "get_members_by_degree_level empty_session =
       [(''masters'', []), (''bachelors'', []), (''phd'', []), (''other'', []), (''alumni'', [])]"
    by blast
  moreover from grouped_has_five_buckets [of three_member_session] m
  have "mset (concat (map snd (get_members_by_degree_level three_member_session))) = {#cy, amy, bo#}"
    by simp
  ultimately show ?thesis using e by blast
qed

end
